theory Spec2Isabelle
  imports Main "HOL-Library.Word"
begin

section \<open>FileIcon: the icon generation pipeline of the Express server\<close>

text \<open>
  The development embeds the server module of the FileIcon repository: the ICNS
  encoder \<open>buildIcns\<close>, the \<open>/api/convert\<close> handler (resize fan-out, ICO and ICNS
  encoding, the two files written to the output directory, the cleanup timer) and the
  \<open>/api/download/:filename\<close> handler (file name validation, lookup, delivery).
\<close>

subsection \<open>Bytes, buffers and JavaScript strings\<close>

text \<open>
  A Node \<open>Buffer\<close> is a fixed-length array of bytes. A JavaScript string is a sequence
  of UTF-16 code units; \<open>js\<close> embeds a literal.
\<close>

type_synonym byte = "8 word"
type_synonym buffer = "byte list"
type_synonym jschar = "16 word"
type_synonym jsstring = "jschar list"

definition js :: "string \<Rightarrow> jsstring" where
  "js s = map (\<lambda>c. of_char c) s"

text \<open>
  The errors the module can meet: the \<open>RangeError\<close> of Node's buffer functions
  (\<open>ERR_OUT_OF_RANGE\<close> and its relatives), the \<open>ENOENT\<close> of \<open>fs.unlinkSync\<close>, and
  the \<open>Error\<close> a library (sharp, png-to-ico) throws or rejects with, by its message.
\<close>

datatype js_error = RangeError | ENOENT | Rejected jsstring

text \<open>
  \<open>Buffer.alloc(size)\<close>: a zero-filled buffer; a size above the runtime's
  \<open>buffer.constants.MAX_LENGTH\<close> raises. The constant depends on the Node version
  and is a parameter.
\<close>

definition Buffer_alloc :: "nat \<Rightarrow> nat \<Rightarrow> js_error + buffer" where
  "Buffer_alloc kMaxLength sz =
     (if sz > kMaxLength then Inl RangeError else Inr (replicate sz 0))"

text \<open>
  Storing a run of bytes into a buffer at an offset, clipped at the end of the
  buffer: the common core of \<open>buf.write\<close>, \<open>buf.writeUInt32BE\<close> and \<open>buf.copy\<close>.
  The buffer keeps its length.
\<close>

definition blit :: "buffer \<Rightarrow> nat \<Rightarrow> byte list \<Rightarrow> buffer" where
  "blit buf offset bs =
     take offset buf @ take (length buf - offset) bs @ drop (offset + length bs) buf"

text \<open>
  \<open>buf.write(string, offset, length, 'ascii')\<close>: the offset and the length are
  validated against the buffer's length, the length is cut to what remains after the
  offset, and each code unit is stored as its low byte (the ascii encoder is the latin1
  encoder). A string shorter than \<open>length\<close> writes only its own characters.
\<close>

definition asciiByte :: "jschar \<Rightarrow> byte" where
  "asciiByte c = ucast c"

definition buf_write :: "buffer \<Rightarrow> jsstring \<Rightarrow> nat \<Rightarrow> nat \<Rightarrow> js_error + buffer" where
  "buf_write buf s offset len =
     (if offset > length buf \<or> len > length buf then Inl RangeError
      else Inr (blit buf offset (take (min len (length buf - offset)) (map asciiByte s))))"

text \<open>
  \<open>buf.writeUInt32BE(value, offset)\<close>: a value above \<open>2^32 - 1\<close> or an offset that
  leaves fewer than four bytes raises; otherwise the four bytes are stored, most
  significant first.
\<close>

definition writeUInt32BE :: "buffer \<Rightarrow> nat \<Rightarrow> nat \<Rightarrow> js_error + buffer" where
  "writeUInt32BE buf v offset =
     (if v > 4294967295 \<or> offset + 4 > length buf then Inl RangeError
      else Inr (blit buf offset
             [of_nat (v div 16777216), of_nat (v div 65536), of_nat (v div 256), of_nat v]))"

text \<open>\<open>buf.readUInt32BE(offset)\<close>, used to read a length field back.\<close>

definition readUInt32BE :: "buffer \<Rightarrow> nat \<Rightarrow> js_error + nat" where
  "readUInt32BE buf offset =
     (if offset + 4 > length buf then Inl RangeError
      else Inr (unat (buf ! offset) * 16777216 + unat (buf ! (offset + 1)) * 65536
                + unat (buf ! (offset + 2)) * 256 + unat (buf ! (offset + 3))))"

text \<open>
  \<open>source.copy(target, targetStart)\<close>: copies as many bytes of the source as fit;
  a start at or beyond the end of the target copies nothing.
\<close>

definition buf_copy :: "buffer \<Rightarrow> buffer \<Rightarrow> nat \<Rightarrow> buffer" where
  "buf_copy source target targetStart = blit target targetStart source"

subsection \<open>The ICNS encoder\<close>

record entry =
  osType :: jsstring
  data :: buffer

text \<open>The first loop of \<open>buildIcns\<close>: \<open>totalSize += 8 + entry.data.length\<close>.\<close>

fun totalSize_loop :: "nat \<Rightarrow> entry list \<Rightarrow> nat" where
  "totalSize_loop totalSize [] = totalSize"
| "totalSize_loop totalSize (e # es) = totalSize_loop (totalSize + (8 + length (data e))) es"

text \<open>The second loop: tag, length field, payload, then the offset moves on.\<close>

fun write_entries :: "buffer \<Rightarrow> nat \<Rightarrow> entry list \<Rightarrow> js_error + buffer" where
  "write_entries buf offset [] = Inr buf"
| "write_entries buf offset (e # es) =
     (case buf_write buf (osType e) offset 4 of
        Inl err \<Rightarrow> Inl err
      | Inr b1 \<Rightarrow>
          (case writeUInt32BE b1 (length (data e) + 8) (offset + 4) of
             Inl err \<Rightarrow> Inl err
           | Inr b2 \<Rightarrow>
               write_entries (buf_copy (data e) b2 (offset + 8))
                 (offset + (8 + length (data e))) es))"

definition buildIcns :: "nat \<Rightarrow> entry list \<Rightarrow> js_error + buffer" where
  "buildIcns kMaxLength pngBuffers =
     (let totalSize = totalSize_loop 8 pngBuffers in
      case Buffer_alloc kMaxLength totalSize of
        Inl err \<Rightarrow> Inl err
      | Inr buf \<Rightarrow>
          (case buf_write buf (js ''icns'') 0 4 of
             Inl err \<Rightarrow> Inl err
           | Inr b1 \<Rightarrow>
               (case writeUInt32BE b1 totalSize 4 of
                  Inl err \<Rightarrow> Inl err
                | Inr b2 \<Rightarrow> write_entries b2 8 pngBuffers)))"

text \<open>
  The layout in the words of the format description: the tag field as \<open>buf.write\<close>
  leaves it in a zeroed buffer (the first four characters, zero bytes after a shorter
  tag), the big-endian length field, and one encoded entry.
\<close>

definition tagField :: "jsstring \<Rightarrow> byte list" where
  "tagField t = take 4 (map asciiByte t) @ replicate (4 - length t) 0"

definition u32be :: "nat \<Rightarrow> byte list" where
  "u32be v = [of_nat (v div 16777216), of_nat (v div 65536), of_nat (v div 256), of_nat v]"

definition entryBytes :: "entry \<Rightarrow> byte list" where
  "entryBytes e = tagField (osType e) @ u32be (8 + length (data e)) @ data e"

definition icnsSize :: "entry list \<Rightarrow> nat" where
  "icnsSize es = 8 + (\<Sum>e\<leftarrow>es. 8 + length (data e))"

text \<open>A tag of four ASCII characters, as the format's type codes are.\<close>

definition asciiTag :: "jsstring \<Rightarrow> bool" where
  "asciiTag t = (length t = 4 \<and> list_all (\<lambda>c. c < 128) t)"

subsection \<open>The upload filter\<close>

text \<open>
  multer's \<open>fileFilter\<close> accepts an upload by its declared MIME type alone; the bytes
  are not looked at before the resizer reads them.
\<close>

definition fileFilter :: "jsstring \<Rightarrow> bool" where
  "fileFilter mimetype =
     (mimetype \<in> set [js ''image/png'', js ''image/jpeg'', js ''image/jpg''])"

subsection \<open>The size tables\<close>

definition ICO_SIZES :: "nat list" where
  "ICO_SIZES = [16, 24, 32, 48, 64, 128, 256]"

text \<open>The objects \<open>{ size, osType }\<close> of the ICNS table, as pairs.\<close>

definition ICNS_SIZES :: "(nat \<times> jsstring) list" where
  "ICNS_SIZES =
     [(16, js ''icp4''), (32, js ''icp5''), (64, js ''icp6''), (128, js ''ic07''),
      (256, js ''ic08''), (512, js ''ic09''), (1024, js ''ic10'')]"

subsection \<open>The external collaborators\<close>

text \<open>
  One run of the resizer, \<open>sharp(input).resize(width, height, { fit, background
  }).png().toBuffer()\<close>, is described by its arguments. sharp and png-to-ico are
  libraries outside the repository: what a run of the resizer and what the ICO encoder
  return are parameters of the model, and both may reject.
\<close>

datatype fit_mode = Cover | Contain | Fill | Inside | Outside

datatype colour = Rgba nat nat nat nat

datatype image_format = Png | Jpeg

record resize_call =
  input :: buffer
  width :: nat
  height :: nat
  fit :: fit_mode
  background :: colour
  format :: image_format

record env =
  sharp :: "resize_call \<Rightarrow> js_error + buffer"
  pngToIco :: "buffer list \<Rightarrow> js_error + buffer"
  kMaxLength :: nat
  outputDir :: jsstring

text \<open>
  \<open>sharp(input)\<close> itself, before any \<open>.resize\<close>: the constructor throws at once
  when the input is an empty \<open>Buffer\<close>; any other buffer is taken as it is and read
  only when the pipeline runs.
\<close>

definition sharp_new :: "buffer \<Rightarrow> js_error + buffer" where
  "sharp_new buf =
     (if buf = [] then Inl (Rejected (js ''Input Buffer is empty'')) else Inr buf)"

text \<open>
  The dimensions a PNG file declares: after the eight bytes of the signature comes the
  \<open>IHDR\<close> chunk, with the width at bytes 16-19 and the height at bytes 20-23, both
  big-endian.
\<close>

definition png_signature :: "byte list" where
  "png_signature = [137, 80, 78, 71, 13, 10, 26, 10]"

definition png_dims :: "buffer \<Rightarrow> (nat \<times> nat) option" where
  "png_dims buf =
     (if take 8 buf = png_signature \<and> take 4 (drop 12 buf) = map asciiByte (js ''IHDR'')
      then (case (readUInt32BE buf 16, readUInt32BE buf 20) of
              (Inr w, Inr h) \<Rightarrow> Some (w, h)
            | _ \<Rightarrow> None)
      else None)"

text \<open>
  The contract of the external resizer, as the specification gives it: what a run
  asked for a PNG returns is a PNG-encoded bitmap of exactly the size asked for.
\<close>

definition resizer_contract :: "env \<Rightarrow> bool" where
  "resizer_contract env =
     (\<forall>c png. sharp env c = Inr png \<and> format c = Png \<longrightarrow>
        png_dims png = Some (width c, height c))"

text \<open>
  \<open>Promise.all\<close> over calls that have all been started: the list of results, or a
  rejection. Where several calls reject the model reports the one of lowest index
  (the runtime reports the one that settles first); only the error carried by the 500
  answer depends on this choice.
\<close>

fun promise_all :: "(js_error + 'a) list \<Rightarrow> js_error + 'a list" where
  "promise_all [] = Inr []"
| "promise_all (Inl err # rs) = Inl err"
| "promise_all (Inr x # rs) =
     (case promise_all rs of Inl err \<Rightarrow> Inl err | Inr xs \<Rightarrow> Inr (x # xs))"

subsection \<open>Identifiers and file names\<close>

text \<open>
  \<open>Number.prototype.toString(36)\<close> on an integer: the digits \<open>0-9a-z\<close>, most
  significant first, after a minus sign for a negative number.
\<close>

definition digit36 :: "nat \<Rightarrow> jschar" where
  "digit36 d = (if d < 10 then of_nat (48 + d) else of_nat (87 + d))"

function digits36 :: "nat \<Rightarrow> jsstring" where
  "digits36 n = (if n < 36 then [digit36 n] else digits36 (n div 36) @ [digit36 (n mod 36)])"
  by pat_completeness auto
termination
  by (relation "measure (\<lambda>n. n)") auto

declare digits36.simps [simp del]

definition toString36 :: "int \<Rightarrow> jsstring" where
  "toString36 n = (if n < 0 then js ''-'' @ digits36 (nat (- n)) else digits36 (nat n))"

text \<open>
  \<open>Math.random().toString(36)\<close>: the random number is a double in \<open>[0, 1)\<close>, printed
  as \<open>0\<close> when it is zero and as \<open>0.\<close> followed by the base-36 digits of its
  fraction otherwise. The model takes the number by these digits (each below 36).
\<close>

definition random_toString36 :: "nat list \<Rightarrow> jsstring" where
  "random_toString36 ds = (if ds = [] then js ''0'' else js ''0.'' @ map digit36 ds)"

text \<open>\<open>s.slice(start, stop)\<close> for \<open>0 \<le> start \<le> stop\<close>.\<close>

definition slice_str :: "jsstring \<Rightarrow> nat \<Rightarrow> nat \<Rightarrow> jsstring" where
  "slice_str s start stop = take (stop - start) (drop start s)"

text \<open>\<open>Date.now().toString(36) + Math.random().toString(36).slice(2, 8)\<close>\<close>

definition new_id :: "int \<Rightarrow> nat list \<Rightarrow> jsstring" where
  "new_id now rnd = toString36 now @ slice_str (random_toString36 rnd) 2 8"

text \<open>
  \<open>path.join(outputDir, filename)\<close> for a file name of one segment (no separator,
  not a dot segment) under a normalised directory.
\<close>

definition path_join :: "jsstring \<Rightarrow> jsstring \<Rightarrow> jsstring" where
  "path_join dir filename = dir @ js ''/'' @ filename"

text \<open>
  \<open>path.extname\<close> of a one-segment name: from the last dot to the end; empty when
  there is no dot or the only dot is the first character.
\<close>

definition extname :: "jsstring \<Rightarrow> jsstring" where
  "extname filename =
     (let after = takeWhile (\<lambda>c. c \<noteq> 46) (rev filename) in
      if length after = length filename \<or> length after + 1 = length filename then []
      else drop (length filename - (length after + 1)) filename)"

text \<open>
  The test \<open>/^[a-z0-9]+\.(ico|icns)$/.test(filename)\<close>. The class \<open>[a-z0-9]\<close> does
  not contain the dot, so the greedy \<open>+\<close> takes the longest run of class characters and
  what follows must be the rest of the pattern. \<open>matches_pattern\<close> is the language of
  the expression, \<open>valid_filename\<close> the matcher.
\<close>

definition is_az09 :: "jschar \<Rightarrow> bool" where
  "is_az09 c = ((97 \<le> c \<and> c \<le> 122) \<or> (48 \<le> c \<and> c \<le> 57))"

definition valid_filename :: "jsstring \<Rightarrow> bool" where
  "valid_filename filename =
     (let stem = takeWhile is_az09 filename; rest = dropWhile is_az09 filename in
      stem \<noteq> [] \<and> (rest = js ''.ico'' \<or> rest = js ''.icns''))"

definition matches_pattern :: "jsstring \<Rightarrow> bool" where
  "matches_pattern filename =
     (\<exists>stem ext. filename = stem @ js ''.'' @ ext \<and> stem \<noteq> [] \<and> list_all is_az09 stem
        \<and> (ext = js ''ico'' \<or> ext = js ''icns''))"

subsection \<open>The output directory and the timers\<close>

text \<open>
  The server's state: the files of the output directory by path, the pending cleanup
  timers (each with the time it is due and the two paths its closure holds), and the
  event loop's clock in milliseconds.
\<close>

record timer =
  due :: nat
  ico :: jsstring
  icns :: jsstring

record server =
  files :: "jsstring \<Rightarrow> buffer option"
  timers :: "timer list"
  clock :: nat

definition existsSync :: "(jsstring \<Rightarrow> buffer option) \<Rightarrow> jsstring \<Rightarrow> bool" where
  "existsSync fs p = (fs p \<noteq> None)"

definition unlinkSync ::
  "(jsstring \<Rightarrow> buffer option) \<Rightarrow> jsstring \<Rightarrow> js_error + (jsstring \<Rightarrow> buffer option)" where
  "unlinkSync fs p = (case fs p of None \<Rightarrow> Inl ENOENT | Some bytes \<Rightarrow> Inr (fs(p := None)))"

definition writeFileSync ::
  "(jsstring \<Rightarrow> buffer option) \<Rightarrow> jsstring \<Rightarrow> buffer \<Rightarrow> (jsstring \<Rightarrow> buffer option)" where
  "writeFileSync fs p bytes = fs(p \<mapsto> bytes)"

text \<open>
  The body of the timer's \<open>try\<close> block, with the error that leaves it (if any) and the
  files as they are at that point; \<open>cleanup\<close> is the whole callback, whose empty
  \<open>catch\<close> drops the error.
\<close>

definition cleanup_try ::
  "jsstring \<Rightarrow> jsstring \<Rightarrow> (jsstring \<Rightarrow> buffer option)
     \<Rightarrow> js_error option \<times> (jsstring \<Rightarrow> buffer option)" where
  "cleanup_try icoPath icnsPath fs =
     (case (if existsSync fs icoPath then unlinkSync fs icoPath else Inr fs) of
        Inl err \<Rightarrow> (Some err, fs)
      | Inr fs1 \<Rightarrow>
          (case (if existsSync fs1 icnsPath then unlinkSync fs1 icnsPath else Inr fs1) of
             Inl err \<Rightarrow> (Some err, fs1)
           | Inr fs2 \<Rightarrow> (None, fs2)))"

definition cleanup ::
  "jsstring \<Rightarrow> jsstring \<Rightarrow> (jsstring \<Rightarrow> buffer option) \<Rightarrow> (jsstring \<Rightarrow> buffer option)" where
  "cleanup icoPath icnsPath fs = snd (cleanup_try icoPath icnsPath fs)"

text \<open>\<open>setTimeout(callback, delay)\<close> registers the timer, due \<open>delay\<close> after now.\<close>

definition setTimeout :: "nat \<Rightarrow> jsstring \<Rightarrow> jsstring \<Rightarrow> server \<Rightarrow> server" where
  "setTimeout delay icoPath icnsPath s =
     s\<lparr>timers := timers s @ [\<lparr>due = clock s + delay, ico = icoPath, icns = icnsPath\<rparr>]\<rparr>"

text \<open>
  The event loop reaching time \<open>t\<close>: every timer due by then runs its callback (in the
  order of registration, which is the order of the due times, the delay being the
  same for all) and is removed.
\<close>

definition fire :: "timer \<Rightarrow> (jsstring \<Rightarrow> buffer option) \<Rightarrow> (jsstring \<Rightarrow> buffer option)" where
  "fire tm fs = cleanup (ico tm) (icns tm) fs"

definition advance :: "nat \<Rightarrow> server \<Rightarrow> server" where
  "advance t s =
     s\<lparr>files := fold fire (filter (\<lambda>tm. due tm \<le> t) (timers s)) (files s),
       timers := filter (\<lambda>tm. \<not> due tm \<le> t) (timers s),
       clock := max t (clock s)\<rparr>"

subsection \<open>The two request handlers\<close>

text \<open>
  What a handler does to its collaborators, in order; what it answers: a plain status
  with a body, the 500 of the \<open>catch\<close> block (whose body is the error's message, or
  \<open>Conversion failed\<close>), the JSON with the two URLs, or a file sent with its content
  type and disposition.
\<close>

datatype event =
    Resize resize_call
  | PngToIco "buffer list"
  | BuildIcns "entry list"
  | WriteFileSync jsstring buffer
  | SetTimeout nat jsstring jsstring
  | ExistsSync jsstring
  | SendFile jsstring

datatype response =
    Status nat jsstring
  | ServerError js_error
  | Json jsstring jsstring
  | File jsstring jsstring buffer

definition resize_request :: "buffer \<Rightarrow> nat \<Rightarrow> resize_call" where
  "resize_request imageBuffer sz =
     \<lparr>input = imageBuffer, width = sz, height = sz, fit = Contain,
      background = Rgba 0 0 0 0, format = Png\<rparr>"

text \<open>
  The ICO fan-out, \<open>Promise.all(ICO_SIZES.map((size) => sharp(imageBuffer)...))\<close>,
  with the resize runs it has started. The callback is an ordinary function: when the
  constructor throws, \<open>map\<close> is left at its first element and no run has been
  started; otherwise all seven runs are started before any result is looked at.
\<close>

definition ico_fanout :: "env \<Rightarrow> buffer \<Rightarrow> (js_error + buffer list) \<times> event list" where
  "ico_fanout env imageBuffer =
     (case sharp_new imageBuffer of
        Inl err \<Rightarrow> (Inl err, [])
      | Inr img \<Rightarrow>
          (promise_all (map (\<lambda>sz. sharp env (resize_request img sz)) ICO_SIZES),
           map (\<lambda>sz. Resize (resize_request img sz)) ICO_SIZES))"

definition pngBuffersForIco :: "env \<Rightarrow> buffer \<Rightarrow> js_error + buffer list" where
  "pngBuffersForIco env imageBuffer = fst (ico_fanout env imageBuffer)"

text \<open>
  The ICNS fan-out, \<open>Promise.all(ICNS_SIZES.map(async ({ size, osType }) => ...))\<close>.
  The callback is \<open>async\<close>: a throw of the constructor rejects that callback's
  promise, without a run started for it, and \<open>map\<close> goes on.
\<close>

definition icns_fanout :: "env \<Rightarrow> buffer \<Rightarrow> (js_error + entry list) \<times> event list" where
  "icns_fanout env imageBuffer =
     (promise_all (map (\<lambda>(sz, tag).
         case sharp_new imageBuffer of
           Inl err \<Rightarrow> Inl err
         | Inr img \<Rightarrow>
             (case sharp env (resize_request img sz) of
                Inl err \<Rightarrow> Inl err
              | Inr bytes \<Rightarrow> Inr \<lparr>osType = tag, data = bytes\<rparr>)) ICNS_SIZES),
      concat (map (\<lambda>(sz, tag).
         case sharp_new imageBuffer of
           Inl err \<Rightarrow> []
         | Inr img \<Rightarrow> [Resize (resize_request img sz)]) ICNS_SIZES))"

definition icnsEntries :: "env \<Rightarrow> buffer \<Rightarrow> js_error + entry list" where
  "icnsEntries env imageBuffer = fst (icns_fanout env imageBuffer)"

text \<open>
  The second half of the handler, from the ICNS fan-out on; the \<open>.ico\<close> file is
  already written when it starts.
\<close>

definition icns_stage ::
  "env \<Rightarrow> buffer \<Rightarrow> jsstring \<Rightarrow> jsstring \<Rightarrow> server \<Rightarrow> response \<times> server \<times> event list" where
  "icns_stage env imageBuffer icoFilename icnsFilename s =
     (let icoPath = path_join (outputDir env) icoFilename;
          calls = snd (icns_fanout env imageBuffer)
      in case icnsEntries env imageBuffer of
           Inl err \<Rightarrow> (ServerError err, s, calls)
         | Inr es \<Rightarrow>
             (case buildIcns (kMaxLength env) es of
                Inl err \<Rightarrow> (ServerError err, s, calls @ [BuildIcns es])
              | Inr icnsBuffer \<Rightarrow>
                  (let icnsPath = path_join (outputDir env) icnsFilename;
                       s1 = s\<lparr>files := writeFileSync (files s) icnsPath icnsBuffer\<rparr>;
                       s2 = setTimeout (5 * 60 * 1000) icoPath icnsPath s1
                   in (Json (js ''/api/download/'' @ icoFilename)
                            (js ''/api/download/'' @ icnsFilename),
                       s2,
                       calls @ [BuildIcns es, WriteFileSync icnsPath icnsBuffer,
                                SetTimeout (5 * 60 * 1000) icoPath icnsPath]))))"

text \<open>
  The handler of \<open>POST /api/convert\<close>. Its inputs are the uploaded file (if any), the
  value of \<open>Date.now()\<close> and the random number; the handler runs to its answer without
  another request or timer in between, and \<open>fs.writeFileSync\<close> is taken to succeed.
\<close>

definition convert ::
  "env \<Rightarrow> int \<Rightarrow> nat list \<Rightarrow> buffer option \<Rightarrow> server \<Rightarrow> response \<times> server \<times> event list" where
  "convert env now rnd file s =
     (case file of
        None \<Rightarrow> (Status 400 (js ''No image file provided''), s, [])
      | Some imageBuffer \<Rightarrow>
          (let ident = new_id now rnd;
               calls = snd (ico_fanout env imageBuffer)
           in case pngBuffersForIco env imageBuffer of
                Inl err \<Rightarrow> (ServerError err, s, calls)
              | Inr pngs \<Rightarrow>
                  (case pngToIco env pngs of
                     Inl err \<Rightarrow> (ServerError err, s, calls @ [PngToIco pngs])
                   | Inr icoBuffer \<Rightarrow>
                       (let icoFilename = ident @ js ''.ico'';
                            icoPath = path_join (outputDir env) icoFilename;
                            s1 = s\<lparr>files := writeFileSync (files s) icoPath icoBuffer\<rparr>;
                            (res, s2, evs) =
                              icns_stage env imageBuffer icoFilename (ident @ js ''.icns'') s1
                        in (res, s2,
                            calls @ [PngToIco pngs, WriteFileSync icoPath icoBuffer] @ evs)))))"

text \<open>The file names and paths a run of the handler uses, as it computes them.\<close>

abbreviation icoFilename :: "int \<Rightarrow> nat list \<Rightarrow> jsstring" where
  "icoFilename now rnd \<equiv> new_id now rnd @ js ''.ico''"

abbreviation icnsFilename :: "int \<Rightarrow> nat list \<Rightarrow> jsstring" where
  "icnsFilename now rnd \<equiv> new_id now rnd @ js ''.icns''"

abbreviation icoPath :: "env \<Rightarrow> int \<Rightarrow> nat list \<Rightarrow> jsstring" where
  "icoPath env now rnd \<equiv> path_join (outputDir env) (icoFilename now rnd)"

abbreviation icnsPath :: "env \<Rightarrow> int \<Rightarrow> nat list \<Rightarrow> jsstring" where
  "icnsPath env now rnd \<equiv> path_join (outputDir env) (icnsFilename now rnd)"

text \<open>
  The handler of \<open>GET /api/download/:filename\<close>; it changes nothing, and
  \<open>res.sendFile\<close> is taken to deliver the file that \<open>fs.existsSync\<close> has just seen.
\<close>

definition download :: "env \<Rightarrow> jsstring \<Rightarrow> server \<Rightarrow> response \<times> event list" where
  "download env filename s =
     (if \<not> valid_filename filename then (Status 400 (js ''Invalid filename''), [])
      else
        (let filePath = path_join (outputDir env) filename in
         case files s filePath of
           None \<Rightarrow> (Status 404 (js ''File not found or expired''), [ExistsSync filePath])
         | Some bytes \<Rightarrow>
             (let ext = drop 1 (extname filename);
                  mimeType = (if ext = js ''ico'' then js ''image/x-icon'' else js ''image/icns'')
              in (File mimeType (js ''attachment; filename='' @ [34] @ filename @ [34]) bytes,
                  [ExistsSync filePath, SendFile filePath]))))"

text \<open>The resize calls among the events of a handler run, in order.\<close>

definition resize_calls :: "event list \<Rightarrow> resize_call list" where
  "resize_calls evs = concat (map (\<lambda>ev. case ev of Resize c \<Rightarrow> [c] | _ \<Rightarrow> []) evs)"

text \<open>
  The specification's \<open>NotFoundError\<close> covers an unknown or expired id and an id that
  fails the file name pattern. In the download handler these are the two refusals: the
  404 for a well-formed name with no file, and the 400 for a name that fails the test.
\<close>

definition NotFoundError :: "response \<Rightarrow> bool" where
  "NotFoundError res =
     (res = Status 404 (js ''File not found or expired'')
      \<or> res = Status 400 (js ''Invalid filename''))"

subsection \<open>Sample inputs\<close>

text \<open>Concrete inputs on which the results below are evaluated.\<close>

definition sample_entries :: "entry list" where
  "sample_entries =
     [\<lparr>osType = js ''icp4'', data = [1, 2, 3]\<rparr>, \<lparr>osType = js ''ic07'', data = []\<rparr>]"

definition sample_icns :: buffer where
  "sample_icns =
     [105, 99, 110, 115, 0, 0, 0, 27,
      105, 99, 112, 52, 0, 0, 0, 11, 1, 2, 3,
      105, 99, 48, 55, 0, 0, 0, 8]"

definition sample_env :: env where
  "sample_env =
     \<lparr>sharp = (\<lambda>c. Inr [of_nat (width c)]),
      pngToIco = (\<lambda>pngs. Inr (concat pngs)),
      kMaxLength = 4294967296,
      outputDir = js ''/srv/output''\<rparr>"

definition sample_image :: buffer where
  "sample_image = [137, 80, 78, 71]"

definition sample_table_entries :: "entry list" where
  "sample_table_entries =
     [\<lparr>osType = js ''icp4'', data = [16]\<rparr>, \<lparr>osType = js ''icp5'', data = [32]\<rparr>,
      \<lparr>osType = js ''icp6'', data = [64]\<rparr>, \<lparr>osType = js ''ic07'', data = [128]\<rparr>,
      \<lparr>osType = js ''ic08'', data = [0]\<rparr>, \<lparr>osType = js ''ic09'', data = [0]\<rparr>,
      \<lparr>osType = js ''ic10'', data = [0]\<rparr>]"

definition odd_entry :: entry where
  "odd_entry = \<lparr>osType = js ''zzzz'', data = [7]\<rparr>"

text \<open>
  A resizer that fails on one large size (a transient failure), and one that rejects
  its input (an upload that is not an image, whatever its declared type).
\<close>

definition flaky_env :: env where
  "flaky_env =
     sample_env\<lparr>sharp := (\<lambda>c. if width c = 512 then Inl (Rejected (js ''out of memory''))
                                else Inr [of_nat (width c)])\<rparr>"

definition broken_env :: env where
  "broken_env =
     sample_env\<lparr>sharp := (\<lambda>c. Inl (Rejected (js ''unsupported image format'')))\<rparr>"

definition empty_server :: server where
  "empty_server = \<lparr>files = (\<lambda>p. None), timers = [], clock = 0\<rparr>"

text \<open>
  One request against the empty server in each of the three environments, at
  \<open>Date.now() = 1000\<close> with the random number \<open>0.5\<close> (printed \<open>0.i\<close>).
\<close>

definition sample_run :: "response \<times> server \<times> event list" where
  "sample_run = convert sample_env 1000 [18] (Some sample_image) empty_server"

definition flaky_run :: "response \<times> server \<times> event list" where
  "flaky_run = convert flaky_env 1000 [18] (Some sample_image) empty_server"

definition broken_run :: "response \<times> server \<times> event list" where
  "broken_run = convert broken_env 1000 [18] (Some sample_image) empty_server"

text \<open>
  A second request that read the same \<open>Date.now()\<close> and drew the same random number
  as the first, and reaches \<open>setTimeout\<close> 50 ms after it.
\<close>

definition repeat_run :: "response \<times> server \<times> event list" where
  "repeat_run =
     convert sample_env 1000 [18] (Some sample_image) (advance 50 (fst (snd sample_run)))"

text \<open>
  A resizer that returns the start of a PNG file of the size asked for: the signature
  and the \<open>IHDR\<close> chunk up to the height.
\<close>

definition png_header :: "nat \<Rightarrow> nat \<Rightarrow> buffer" where
  "png_header w h =
     png_signature @ u32be 13 @ map asciiByte (js ''IHDR'') @ u32be w @ u32be h"

definition png_env :: env where
  "png_env =
     sample_env\<lparr>sharp := (\<lambda>c. if width c \<le> 4294967295 \<and> height c \<le> 4294967295
                                then Inr (png_header (width c) (height c))
                                else Inl (Rejected (js ''Invalid width or height'')))\<rparr>"

definition png_run :: "response \<times> server \<times> event list" where
  "png_run = convert png_env 1000 [18] (Some sample_image) empty_server"

section \<open>Properties\<close>

subsection \<open>Buffer writes on a zeroed buffer\<close>

lemma length_blit: "length (blit buf offset bs) = length buf"
  by (auto simp: blit_def)

lemma blit_middle:
  "length bs = length mid \<Longrightarrow> blit (pre @ mid @ post) (length pre) bs = pre @ bs @ post"
  by (simp add: blit_def)

lemma length_tagField: "length (tagField t) = 4"
  by (auto simp: tagField_def)

lemma length_u32be: "length (u32be v) = 4"
  by (simp add: u32be_def)

lemma buf_write_tag:
  assumes "offset = length pre"
  shows "buf_write (pre @ replicate (4 + k) 0) t offset 4 = Inr (pre @ tagField t @ replicate k 0)"
proof -
  let ?bs = "take 4 (map asciiByte t)"
  have len: "length ?bs = min 4 (length t)" by simp
  have pad: "drop (length ?bs) (replicate (4 + k) (0::byte)) = replicate (4 - length t) 0 @ replicate k 0"
  proof (cases "4 \<le> length t")
    case True
    then show ?thesis by simp
  next
    case False
    then have "4 + k - length t = (4 - length t) + k" by simp
    with False show ?thesis by (simp add: replicate_add)
  qed
  have "blit (pre @ replicate (4 + k) 0) (length pre) ?bs = pre @ ?bs @ drop (length ?bs) (replicate (4 + k) 0)"
    by (simp add: blit_def)
  then have "blit (pre @ replicate (4 + k) 0) (length pre) ?bs = pre @ tagField t @ replicate k 0"
    unfolding pad by (simp add: tagField_def)
  then show ?thesis using assms
    by (simp add: buf_write_def)
qed

lemma writeUInt32BE_field:
  assumes "v \<le> 4294967295" "offset = length pre"
  shows "writeUInt32BE (pre @ replicate (4 + k) 0) v offset = Inr (pre @ u32be v @ replicate k 0)"
proof -
  have "blit (pre @ replicate 4 0 @ replicate k 0) (length pre) (u32be v) = pre @ u32be v @ replicate k 0"
    by (rule blit_middle) (simp add: length_u32be)
  then show ?thesis using assms
    by (simp add: writeUInt32BE_def u32be_def replicate_add)
qed

lemma buf_copy_payload:
  assumes "offset = length pre"
  shows "buf_copy d (pre @ replicate (length d + k) 0) offset = pre @ d @ replicate k 0"
proof -
  have "blit (pre @ replicate (length d) 0 @ replicate k 0) (length pre) d = pre @ d @ replicate k 0"
    by (rule blit_middle) simp
  then show ?thesis using assms by (simp add: buf_copy_def replicate_add)
qed

lemma write_entries_layout:
  "\<forall>e \<in> set es. 8 + length (data e) \<le> 4294967295 \<Longrightarrow> offset = length pre \<Longrightarrow>
   write_entries (pre @ replicate (\<Sum>e\<leftarrow>es. 8 + length (data e)) 0) offset es
     = Inr (pre @ concat (map entryBytes es))"
proof (induction es arbitrary: pre offset)
  case Nil
  then show ?case by simp
next
  case (Cons e es)
  let ?n = "length (data e)"
  let ?S = "\<Sum>e\<leftarrow>es. 8 + length (data e)"
  let ?t = "tagField (osType e)"
  let ?l = "u32be (?n + 8)"
  have off: "offset = length pre" by (rule Cons.prems(2))
  have sz: "?n + 8 \<le> 4294967295" using Cons.prems(1) by simp
  have rest: "\<forall>e \<in> set es. 8 + length (data e) \<le> 4294967295" using Cons.prems(1) by simp
  have total: "(\<Sum>e\<leftarrow>e # es. 8 + length (data e)) = 4 + (4 + (?n + ?S))" by simp
  have s1: "buf_write (pre @ replicate (4 + (4 + (?n + ?S))) 0) (osType e) offset 4
            = Inr (pre @ ?t @ replicate (4 + (?n + ?S)) 0)"
    using off by (rule buf_write_tag)
  have s2: "writeUInt32BE ((pre @ ?t) @ replicate (4 + (?n + ?S)) 0) (?n + 8) (offset + 4)
            = Inr ((pre @ ?t) @ ?l @ replicate (?n + ?S) 0)"
    using sz by (rule writeUInt32BE_field) (simp add: off length_tagField)
  have s3: "buf_copy (data e) ((pre @ ?t @ ?l) @ replicate (?n + ?S) 0) (offset + 8)
            = (pre @ ?t @ ?l) @ data e @ replicate ?S 0"
    by (rule buf_copy_payload) (simp add: off length_tagField length_u32be)
  have s4: "write_entries ((pre @ entryBytes e) @ replicate ?S 0) (offset + (8 + ?n)) es
            = Inr ((pre @ entryBytes e) @ concat (map entryBytes es))"
    by (rule Cons.IH [OF rest]) (simp add: off entryBytes_def length_tagField length_u32be)
  have eb: "entryBytes e = ?t @ ?l @ data e"
    by (simp add: entryBytes_def add.commute)
  have "write_entries (pre @ replicate (4 + (4 + (?n + ?S))) 0) offset (e # es)
        = write_entries ((pre @ entryBytes e) @ replicate ?S 0) (offset + (8 + ?n)) es"
    using s2 s3 by (simp only: write_entries.simps s1 sum.case eb append_assoc)
  then show ?case
    unfolding total s4 by (simp only: append_assoc concat.simps list.map)
qed


lemma totalSize_loop_eq: "totalSize_loop n es = n + (\<Sum>e\<leftarrow>es. 8 + length (data e))"
  by (induction es arbitrary: n) auto

lemma totalSize_loop_icnsSize: "totalSize_loop 8 es = icnsSize es"
  by (simp add: totalSize_loop_eq icnsSize_def)

lemma entry_le_icnsSize: "e \<in> set es \<Longrightarrow> 8 + length (data e) \<le> icnsSize es"
  by (induction es) (auto simp: icnsSize_def)

lemma tagField_icns: "tagField (js ''icns'') = [105, 99, 110, 115]"
  by (simp add: tagField_def js_def asciiByte_def)

lemma buildIcns_eq:
  "buildIcns K es =
     (if icnsSize es \<le> K \<and> icnsSize es \<le> 4294967295
      then Inr ([105, 99, 110, 115] @ u32be (icnsSize es) @ concat (map entryBytes es))
      else Inl RangeError)"
proof -
  let ?S = "\<Sum>e\<leftarrow>es. 8 + length (data e)"
  let ?magic = "[105, 99, 110, 115] :: byte list"
  let ?zeros = "replicate (4 + (4 + ?S)) (0::byte)"
  have size: "icnsSize es = 4 + (4 + ?S)" by (simp add: icnsSize_def)
  have unfold: "buildIcns K es =
      (case Buffer_alloc K (icnsSize es) of
         Inl err \<Rightarrow> Inl err
       | Inr buf \<Rightarrow>
          (case buf_write buf (js ''icns'') 0 4 of
             Inl err \<Rightarrow> Inl err
           | Inr b1 \<Rightarrow>
               (case writeUInt32BE b1 (icnsSize es) 4 of
                  Inl err \<Rightarrow> Inl err
                | Inr b2 \<Rightarrow> write_entries b2 8 es)))"
    by (simp only: buildIcns_def totalSize_loop_icnsSize Let_def)
  have alloc: "icnsSize es \<le> K \<Longrightarrow> Buffer_alloc K (icnsSize es) = Inr ?zeros"
    unfolding size by (simp add: Buffer_alloc_def)
  have "buf_write ([] @ ?zeros) (js ''icns'') 0 4
              = Inr ([] @ tagField (js ''icns'') @ replicate (4 + ?S) 0)"
    by (rule buf_write_tag) simp
  then have w1: "buf_write ?zeros (js ''icns'') 0 4 = Inr (?magic @ replicate (4 + ?S) 0)"
    by (simp only: append_Nil tagField_icns)
  have w2: "icnsSize es \<le> 4294967295 \<Longrightarrow>
            writeUInt32BE (?magic @ replicate (4 + ?S) 0) (icnsSize es) 4
              = Inr ((?magic @ u32be (icnsSize es)) @ replicate ?S 0)"
    unfolding append_assoc by (rule writeUInt32BE_field) simp_all
  have w2': "\<not> icnsSize es \<le> 4294967295 \<Longrightarrow>
            writeUInt32BE (?magic @ replicate (4 + ?S) 0) (icnsSize es) 4 = Inl RangeError"
    by (simp add: writeUInt32BE_def)
  have w3: "icnsSize es \<le> 4294967295 \<Longrightarrow>
            write_entries ((?magic @ u32be (icnsSize es)) @ replicate ?S 0) 8 es
              = Inr ((?magic @ u32be (icnsSize es)) @ concat (map entryBytes es))"
  proof (rule write_entries_layout)
    assume le: "icnsSize es \<le> 4294967295"
    show "\<forall>e\<in>set es. 8 + length (data e) \<le> 4294967295"
      using entry_le_icnsSize le by (meson le_trans)
    show "8 = length (?magic @ u32be (icnsSize es))" by (simp add: length_u32be)
  qed
  show ?thesis
  proof (cases "icnsSize es \<le> K")
    case False
    then show ?thesis
      unfolding unfold by (simp add: Buffer_alloc_def)
  next
    case True
    note inK = this
    show ?thesis
    proof (cases "icnsSize es \<le> 4294967295")
      case False
      have "buildIcns K es = Inl RangeError"
        unfolding unfold by (simp only: alloc[OF inK] w1 w2'[OF False] sum.case)
      with False show ?thesis by simp
    next
      case True
      have "buildIcns K es = Inr ((?magic @ u32be (icnsSize es)) @ concat (map entryBytes es))"
        unfolding unfold by (simp only: alloc[OF inK] w1 w2[OF True] w3[OF True] sum.case)
      with inK True show ?thesis by simp
    qed
  qed
qed

lemma u32_roundtrip: 
  assumes v: "v < 4294967296"
  shows "(v div 16777216) mod 256 * 16777216 + (v div 65536) mod 256 * 65536 + (v div 256) mod 256 * 256 + v mod 256 = (v::nat)"
proof -
  define q1 where "q1 = v div 256"
  define q2 where "q2 = q1 div 256"
  define q3 where "q3 = q2 div 256"
  have e2: "v div 65536 = q2" and e3: "v div 16777216 = q3"
    by (simp_all add: q1_def q2_def q3_def div_mult2_eq[symmetric])
  have a: "v = q1 * 256 + v mod 256" unfolding q1_def by simp
  have b: "q1 = q2 * 256 + q1 mod 256" unfolding q2_def by simp
  have c: "q2 = q3 * 256 + q2 mod 256" unfolding q3_def by simp
  have "q3 < 256" using v unfolding e3[symmetric] by simp
  then have d: "q3 mod 256 = q3" by simp
  have "q3 * 16777216 + q2 mod 256 * 65536 + q1 mod 256 * 256 + v mod 256 = v"
    using a b c by linarith
  then show ?thesis unfolding e2 e3 d q1_def[symmetric] .
qed

lemma unat_byte: "unat (of_nat n :: byte) = n mod 256"
  by (simp add: unat_of_nat)

lemma readUInt32BE_u32be:
  assumes "v \<le> 4294967295" "offset = length pre"
  shows "readUInt32BE (pre @ u32be v @ post) offset = Inr v"
proof -
  have nth: "(pre @ u32be v @ post) ! offset = of_nat (v div 16777216)"
       "(pre @ u32be v @ post) ! (offset + 1) = of_nat (v div 65536)"
       "(pre @ u32be v @ post) ! (offset + 2) = of_nat (v div 256)"
       "(pre @ u32be v @ post) ! (offset + 3) = of_nat v"
    using assms(2) by (simp_all add: nth_append u32be_def)
  have "offset + 4 \<le> length (pre @ u32be v @ post)"
    using assms(2) by (simp add: length_u32be)
  then show ?thesis
    unfolding readUInt32BE_def nth unat_byte
    using u32_roundtrip[of v] assms(1) by simp
qed

lemma length_entryBytes: "length (entryBytes e) = 8 + length (data e)"
  by (simp add: entryBytes_def length_tagField length_u32be)

lemma length_concat_entryBytes:
  "length (concat (map entryBytes es)) = (\<Sum>e\<leftarrow>es. 8 + length (data e))"
  by (induction es) (simp_all add: length_entryBytes)

lemma buildIcns_Inr:
  assumes "buildIcns K es = Inr buf"
  shows "icnsSize es \<le> K" "icnsSize es \<le> 4294967295"
    "buf = [105, 99, 110, 115] @ u32be (icnsSize es) @ concat (map entryBytes es)"
  using assms unfolding buildIcns_eq by (simp_all split: if_splits)

lemma buildIcns_length:
  assumes "buildIcns K es = Inr buf"
  shows "length buf = icnsSize es"
  unfolding buildIcns_Inr(3)[OF assms]
  by (simp add: length_u32be length_concat_entryBytes icnsSize_def)

lemma icns_magic: "map asciiByte (js ''icns'') = [105, 99, 110, 115]"
  by (simp add: js_def asciiByte_def)

lemma buildIcns_sample: "buildIcns 100 sample_entries = Inr sample_icns"
  by (simp add: buildIcns_eq icnsSize_def sample_entries_def sample_icns_def entryBytes_def
        tagField_def u32be_def js_def asciiByte_def)

subsection \<open>The ICNS container\<close>

text \<open>
  C1. For every entry list (non-empty, and the empty one too): \<open>buildIcns\<close> returns
  a buffer whenever the total size is within the runtime's buffer limit and
  \<open>2^32 - 1\<close>, and every buffer it returns begins with the four bytes of \<open>icns\<close>,
  holds its own length in the big-endian 32-bit field at bytes 4-7, and that length is
  8 plus the sum over the entries of 8 plus the payload length.
\<close>

theorem buildIcns_header:
  "(icnsSize es \<le> K \<and> icnsSize es \<le> 4294967295 \<longrightarrow> (\<exists>buf. buildIcns K es = Inr buf))
   \<and> (\<forall>buf. buildIcns K es = Inr buf \<longrightarrow>
          take 4 buf = map asciiByte (js ''icns'')
        \<and> readUInt32BE buf 4 = Inr (length buf)
        \<and> length buf = 8 + (\<Sum>e\<leftarrow>es. 8 + length (data e)))"
proof -
  have returns: "\<exists>buf. buildIcns K es = Inr buf"
    if "icnsSize es \<le> K \<and> icnsSize es \<le> 4294967295"
    using that by (simp add: buildIcns_eq)
  have header: "take 4 buf = map asciiByte (js ''icns'')
        \<and> readUInt32BE buf 4 = Inr (length buf)
        \<and> length buf = 8 + (\<Sum>e\<leftarrow>es. 8 + length (data e))"
    if built: "buildIcns K es = Inr buf" for buf
  proof -
    note shape = buildIcns_Inr(3) [OF built]
    have len: "length buf = icnsSize es" by (rule buildIcns_length [OF built])
    have magic: "take 4 buf = map asciiByte (js ''icns'')"
      unfolding shape icns_magic by simp
    have field: "readUInt32BE buf 4 = Inr (icnsSize es)"
      unfolding shape by (rule readUInt32BE_u32be [OF buildIcns_Inr(2) [OF built]]) simp
    show ?thesis using magic field len by (simp add: icnsSize_def)
  qed
  show ?thesis
    using returns header by blast
qed

theorem buildIcns_header_witness:
  "icnsSize sample_entries \<le> 100 \<and> icnsSize sample_entries \<le> 4294967295
   \<and> buildIcns 100 sample_entries = Inr sample_icns
   \<and> take 4 sample_icns = map asciiByte (js ''icns'')
   \<and> readUInt32BE sample_icns 4 = Inr (length sample_icns)
   \<and> length sample_icns = 8 + (\<Sum>e\<leftarrow>sample_entries. 8 + length (data e))"
proof -
  have size: "icnsSize sample_entries \<le> 100 \<and> icnsSize sample_entries \<le> 4294967295"
    by (simp add: icnsSize_def sample_entries_def)
  have "take 4 sample_icns = map asciiByte (js ''icns'')
        \<and> readUInt32BE sample_icns 4 = Inr (length sample_icns)
        \<and> length sample_icns = 8 + (\<Sum>e\<leftarrow>sample_entries. 8 + length (data e))"
    using buildIcns_header [of sample_entries 100] buildIcns_sample by blast
  then show ?thesis
    using size buildIcns_sample by blast
qed

subsection \<open>The fan-outs and the table\<close>

lemma promise_all_Inr: "promise_all rs = Inr xs \<longleftrightarrow> rs = map Inr xs"
proof (induction rs arbitrary: xs rule: promise_all.induct)
  case 1
  then show ?case by auto
next
  case (2 err rs)
  then show ?case by auto
next
  case (3 x rs)
  show ?case
  proof (cases xs)
    case Nil
    then show ?thesis by (simp split: sum.splits)
  next
    case (Cons y ys)
    have "(promise_all (Inr x # rs) = Inr (y # ys)) = (x = y \<and> promise_all rs = Inr ys)"
      by (cases "promise_all rs") auto
    also have "\<dots> = (x = y \<and> rs = map Inr ys)"
      by (simp only: "3.IH")
    finally show ?thesis using Cons by simp
  qed
qed

lemma promise_all_succeeds:
  assumes "\<forall>x\<in>set xs. \<exists>y. f x = Inr y"
  shows "\<exists>ys. promise_all (map f xs) = Inr ys"
  using assms
proof (induction xs)
  case Nil
  then show ?case by simp
next
  case (Cons x xs)
  then obtain y ys where "f x = Inr y" "promise_all (map f xs) = Inr ys"
    by auto
  then show ?case by simp
qed

lemma sharp_new_simps:
  "sharp_new [] = Inl (Rejected (js ''Input Buffer is empty''))"
  "buf \<noteq> [] \<Longrightarrow> sharp_new buf = Inr buf"
  by (simp_all add: sharp_new_def)

lemma sample_image_nonempty: "sample_image \<noteq> []"
  by (simp add: sample_image_def)

lemma ico_fanout_empty:
  "ico_fanout env [] = (Inl (Rejected (js ''Input Buffer is empty'')), [])"
  by (simp add: ico_fanout_def sharp_new_simps)

lemma pngBuffersForIco_nonempty:
  "img \<noteq> [] \<Longrightarrow>
   pngBuffersForIco env img
     = promise_all (map (\<lambda>sz. sharp env (resize_request img sz)) ICO_SIZES)"
  by (simp add: pngBuffersForIco_def ico_fanout_def sharp_new_simps)

lemma pngBuffersForIco_Inr_nonempty: "pngBuffersForIco env img = Inr pngs \<Longrightarrow> img \<noteq> []"
  by (auto simp: pngBuffersForIco_def ico_fanout_empty)

lemma ico_calls:
  "snd (ico_fanout env img)
     = (if img = [] then [] else map (\<lambda>sz. Resize (resize_request img sz)) ICO_SIZES)"
  by (simp add: ico_fanout_def sharp_new_simps)

lemma icnsEntries_nonempty:
  "img \<noteq> [] \<Longrightarrow>
   icnsEntries env img
     = promise_all (map (\<lambda>(sz, tag).
         case sharp env (resize_request img sz) of
           Inl err \<Rightarrow> Inl err
         | Inr bytes \<Rightarrow> Inr \<lparr>osType = tag, data = bytes\<rparr>) ICNS_SIZES)"
  by (simp add: icnsEntries_def icns_fanout_def sharp_new_simps)

lemma icnsEntries_Inr_nonempty: "icnsEntries env img = Inr tes \<Longrightarrow> img \<noteq> []"
  by (auto simp: icnsEntries_def icns_fanout_def sharp_new_simps ICNS_SIZES_def)

lemma icns_calls:
  "snd (icns_fanout env img)
     = (if img = [] then [] else map (\<lambda>p. Resize (resize_request img (fst p))) ICNS_SIZES)"
  by (simp add: icns_fanout_def sharp_new_simps ICNS_SIZES_def)

lemma icnsEntries_table:
  assumes "icnsEntries env img = Inr tes"
  shows "list_all2 (\<lambda>(sz, tag) e. osType e = tag \<and> sharp env (resize_request img sz) = Inr (data e))
           ICNS_SIZES tes"
proof -
  let ?f = "\<lambda>(sz, tag). case sharp env (resize_request img sz) of
           Inl err \<Rightarrow> Inl err
         | Inr bytes \<Rightarrow> Inr \<lparr>osType = tag, data = bytes\<rparr>"
  have "map ?f ICNS_SIZES = map Inr tes"
    using assms icnsEntries_nonempty [OF icnsEntries_Inr_nonempty [OF assms], of env]
    by (simp add: promise_all_Inr)
  then have "list_all2 (\<lambda>p e. ?f p = Inr e) ICNS_SIZES tes"
    by (simp add: list_all2_conv_all_nth map_equality_iff)
  then show ?thesis
    by (rule list_all2_mono) (auto split: sum.splits prod.splits)
qed

lemma icnsEntries_tags:
  assumes "icnsEntries env img = Inr tes"
  shows "map osType tes = map snd ICNS_SIZES"
proof -
  have "list_all2 (\<lambda>p e. osType e = snd p) ICNS_SIZES tes"
    by (rule list_all2_mono [OF icnsEntries_table [OF assms]]) auto
  then show ?thesis
    by (simp add: list_all2_conv_all_nth list_eq_iff_nth_eq)
qed

lemma unat_asciiByte: "c < 128 \<Longrightarrow> unat (asciiByte c) = unat c"
proof -
  assume "c < 128"
  then have "unat c < 128" by (simp add: word_less_nat_alt)
  then show ?thesis by (simp add: asciiByte_def unsigned_ucast_eq take_bit_eq_mod)
qed

lemma tagField_asciiTag:
  assumes "asciiTag t"
  shows "map unat (tagField t) = map unat t"
proof -
  have len: "length t = 4" and small: "\<forall>c\<in>set t. c < 128"
    using assms by (simp_all add: asciiTag_def list_all_iff)
  have "map unat (map asciiByte t) = map unat t"
    using small by (simp add: unat_asciiByte)
  then show ?thesis using len by (simp add: tagField_def)
qed

lemma ICNS_SIZES_tags: "list_all asciiTag (map snd ICNS_SIZES)"
  by (simp add: ICNS_SIZES_def asciiTag_def js_def)

lemma icnsEntries_sample: "icnsEntries sample_env sample_image = Inr sample_table_entries"
  by (simp add: icnsEntries_nonempty sample_image_nonempty ICNS_SIZES_def sample_env_def
        sample_table_entries_def
        resize_request_def)

text \<open>
  C2. Whenever \<open>buildIcns\<close> returns a buffer, the buffer is the 8-byte header
  followed by the encoded entries, one after the other in the caller's order with
  nothing between them; each encoded entry is 8 bytes longer than its payload, its
  first four bytes are the character codes of its tag (for a tag of four ASCII
  characters), its bytes 4-7 read as a big-endian 32-bit number give 8 plus the payload
  length, and the payload follows unchanged. The table of the convert handler lists
  the sizes 16, 32, 64, 128, 256, 512, 1024 in ascending order with the tags icp4,
  icp5, icp6, ic07, ic08, ic09, ic10, and the entries the handler builds carry these
  tags in this order.
\<close>

theorem buildIcns_layout:
  assumes "buildIcns K es = Inr buf"
  shows "buf = map asciiByte (js ''icns'') @ u32be (length buf) @ concat (map entryBytes es)
    \<and> (\<forall>e\<in>set es.
          length (entryBytes e) = 8 + length (data e)
        \<and> (asciiTag (osType e) \<longrightarrow> map unat (take 4 (entryBytes e)) = map unat (osType e))
        \<and> readUInt32BE (entryBytes e) 4 = Inr (8 + length (data e))
        \<and> drop 8 (entryBytes e) = data e)
    \<and> map fst ICNS_SIZES = [16, 32, 64, 128, 256, 512, 1024]
    \<and> map snd ICNS_SIZES
         = map js [''icp4'', ''icp5'', ''icp6'', ''ic07'', ''ic08'', ''ic09'', ''ic10'']
    \<and> sorted (map fst ICNS_SIZES)
    \<and> list_all asciiTag (map snd ICNS_SIZES)
    \<and> (\<forall>env img tes. icnsEntries env img = Inr tes \<longrightarrow> map osType tes = map snd ICNS_SIZES)"
proof -
  have shape: "buf = map asciiByte (js ''icns'') @ u32be (length buf) @ concat (map entryBytes es)"
    using buildIcns_Inr(3)[OF assms] unfolding buildIcns_length[OF assms] icns_magic .
  have fields: "length (entryBytes e) = 8 + length (data e)
        \<and> (asciiTag (osType e) \<longrightarrow> map unat (take 4 (entryBytes e)) = map unat (osType e))
        \<and> readUInt32BE (entryBytes e) 4 = Inr (8 + length (data e))
        \<and> drop 8 (entryBytes e) = data e" if e: "e \<in> set es" for e
  proof -
    have small: "8 + length (data e) \<le> 4294967295"
      using entry_le_icnsSize[OF e] buildIcns_Inr(2)[OF assms] by simp
    have tag: "take 4 (entryBytes e) = tagField (osType e)"
      by (simp add: entryBytes_def length_tagField)
    have "readUInt32BE (tagField (osType e) @ u32be (8 + length (data e)) @ data e) 4
            = Inr (8 + length (data e))"
      using small by (rule readUInt32BE_u32be) (simp add: length_tagField)
    then have len: "readUInt32BE (entryBytes e) 4 = Inr (8 + length (data e))"
      by (simp add: entryBytes_def)
    have payload: "drop 8 (entryBytes e) = data e"
      by (simp add: entryBytes_def length_tagField length_u32be)
    show ?thesis
      using len payload by (simp add: length_entryBytes tag tagField_asciiTag)
  qed
  have sizes: "map fst ICNS_SIZES = [16, 32, 64, 128, 256, 512, 1024]"
    by (simp add: ICNS_SIZES_def)
  have tags: "map snd ICNS_SIZES
         = map js [''icp4'', ''icp5'', ''icp6'', ''ic07'', ''ic08'', ''ic09'', ''ic10'']"
    by (simp add: ICNS_SIZES_def)
  have ascending: "sorted (map fst ICNS_SIZES)"
    unfolding sizes by simp
  show ?thesis
    using shape fields sizes tags ascending ICNS_SIZES_tags icnsEntries_tags by blast
qed

theorem buildIcns_layout_witness:
  "buildIcns 100 sample_entries = Inr sample_icns
   \<and> sample_icns = map asciiByte (js ''icns'') @ u32be (length sample_icns)
                      @ concat (map entryBytes sample_entries)
   \<and> asciiTag (js ''icp4'')
   \<and> map unat (take 4 (entryBytes \<lparr>osType = js ''icp4'', data = [1, 2, 3]\<rparr>)) = [105, 99, 112, 52]
   \<and> readUInt32BE (entryBytes \<lparr>osType = js ''icp4'', data = [1, 2, 3]\<rparr>) 4 = Inr 11
   \<and> drop 8 (entryBytes \<lparr>osType = js ''icp4'', data = [1, 2, 3]\<rparr>) = [1, 2, 3]
   \<and> icnsEntries sample_env sample_image = Inr sample_table_entries
   \<and> map osType sample_table_entries = map snd ICNS_SIZES"
proof -
  note layout = buildIcns_layout [OF buildIcns_sample]
  let ?e = "\<lparr>osType = js ''icp4'', data = [1, 2, 3]\<rparr>"
  have shape: "sample_icns = map asciiByte (js ''icns'') @ u32be (length sample_icns)
                      @ concat (map entryBytes sample_entries)"
    using layout by (rule conjunct1)
  have each: "\<forall>e\<in>set sample_entries.
          length (entryBytes e) = 8 + length (data e)
        \<and> (asciiTag (osType e) \<longrightarrow> map unat (take 4 (entryBytes e)) = map unat (osType e))
        \<and> readUInt32BE (entryBytes e) 4 = Inr (8 + length (data e))
        \<and> drop 8 (entryBytes e) = data e"
    using layout by (rule conjunct2 [THEN conjunct1])
  have tag: "asciiTag (js ''icp4'')"
    by (simp add: asciiTag_def js_def)
  have mem: "?e \<in> set sample_entries"
    by (simp add: sample_entries_def)
  have fields: "(asciiTag (osType ?e) \<longrightarrow> map unat (take 4 (entryBytes ?e)) = map unat (osType ?e))
        \<and> readUInt32BE (entryBytes ?e) 4 = Inr (8 + length (data ?e))
        \<and> drop 8 (entryBytes ?e) = data ?e"
    using each mem by blast
  have bytes: "map unat (take 4 (entryBytes ?e)) = [105, 99, 112, 52]"
    using fields tag by (simp add: js_def)
  have len: "readUInt32BE (entryBytes ?e) 4 = Inr 11" and payload: "drop 8 (entryBytes ?e) = [1, 2, 3]"
    using fields by simp_all
  have tbl: "map osType sample_table_entries = map snd ICNS_SIZES"
    using layout icnsEntries_sample by blast
  show ?thesis
    using buildIcns_sample shape tag bytes len payload icnsEntries_sample tbl by simp
qed

text \<open>
  C3, as the code has it. \<open>buildIcns\<close> checks neither that there are entries nor
  that a tag belongs to the table: the empty list gives the header alone, and an entry
  with the tag \<open>zzzz\<close> is encoded like any other.
\<close>

theorem buildIcns_no_validation_example:
  "buildIcns 4294967296 [] = Inr [105, 99, 110, 115, 0, 0, 0, 8]
   \<and> buildIcns 4294967296 [odd_entry]
       = Inr [105, 99, 110, 115, 0, 0, 0, 17, 122, 122, 122, 122, 0, 0, 0, 9, 7]"
  by (simp add: buildIcns_eq icnsSize_def odd_entry_def entryBytes_def
        tagField_def u32be_def js_def asciiByte_def)

text \<open>
  C3, amended. For every entry list, whatever its tags and also when it is empty,
  \<open>buildIcns\<close> returns the encoded container when the total size is within the
  runtime's buffer limit and \<open>2^32 - 1\<close>, and fails with the \<open>RangeError\<close> of
  \<open>Buffer.alloc\<close> or \<open>writeUInt32BE\<close> otherwise.
\<close>

theorem buildIcns_no_validation:
  "(icnsSize es \<le> K \<and> icnsSize es \<le> 4294967295 \<longrightarrow>
      buildIcns K es
        = Inr (map asciiByte (js ''icns'') @ u32be (icnsSize es) @ concat (map entryBytes es)))
   \<and> (\<not> (icnsSize es \<le> K \<and> icnsSize es \<le> 4294967295) \<longrightarrow>
      buildIcns K es = Inl RangeError)"
proof (cases "icnsSize es \<le> K \<and> icnsSize es \<le> 4294967295")
  case True
  then have "buildIcns K es
      = Inr ([105, 99, 110, 115] @ u32be (icnsSize es) @ concat (map entryBytes es))"
    by (simp add: buildIcns_eq)
  then show ?thesis
    using True unfolding icns_magic by simp
next
  case False
  then have "buildIcns K es = Inl RangeError"
    by (simp add: buildIcns_eq)
  then show ?thesis
    using False by simp
qed

theorem buildIcns_no_validation_witness:
  "icnsSize [odd_entry] \<le> 4294967296 \<and> icnsSize [odd_entry] \<le> 4294967295
   \<and> buildIcns 4294967296 [odd_entry]
       = Inr (map asciiByte (js ''icns'') @ u32be (icnsSize [odd_entry])
              @ concat (map entryBytes [odd_entry]))
   \<and> \<not> (icnsSize [odd_entry] \<le> 16 \<and> icnsSize [odd_entry] \<le> 4294967295)
   \<and> buildIcns 16 [odd_entry] = Inl RangeError"
proof -
  have size: "icnsSize [odd_entry] = 17"
    by (simp add: icnsSize_def odd_entry_def)
  show ?thesis
    using buildIcns_no_validation [of "[odd_entry]" 4294967296]
      buildIcns_no_validation [of "[odd_entry]" 16]
    unfolding size by simp
qed

subsection \<open>Identifiers and the file name pattern\<close>

lemma unat_of_nat16: "n < 65536 \<Longrightarrow> unat (of_nat n :: jschar) = n"
  by (simp add: unat_of_nat)

lemma is_az09_digit36:
  assumes "d < 36"
  shows "is_az09 (digit36 d)"
proof (cases "d < 10")
  case True
  have "unat (of_nat (48 + d) :: jschar) = 48 + d"
    using True by (intro unat_of_nat16) simp
  then show ?thesis
    using True by (simp add: is_az09_def digit36_def word_le_nat_alt del: of_nat_add)
next
  case False
  have "unat (of_nat (87 + d) :: jschar) = 87 + d"
    using assms by (intro unat_of_nat16) simp
  then show ?thesis
    using False assms by (simp add: is_az09_def digit36_def word_le_nat_alt del: of_nat_add)
qed

lemma is_az09_digits36: "list_all is_az09 (digits36 n)"
proof (induction n rule: digits36.induct)
  case (1 n)
  show ?case
  proof (cases "n < 36")
    case True
    then show ?thesis by (subst digits36.simps) (simp add: is_az09_digit36)
  next
    case False
    then show ?thesis using 1 by (subst digits36.simps) (simp add: is_az09_digit36)
  qed
qed

lemma digits36_nonempty: "digits36 n \<noteq> []"
  by (subst digits36.simps) simp

lemma dot_not_az09: "\<not> is_az09 46"
  by (simp add: is_az09_def)

lemma random_suffix: 
  "slice_str (random_toString36 ds) 2 8 = take 6 (map digit36 ds)"
  by (simp add: slice_str_def random_toString36_def js_def)

lemma is_az09_new_id:
  assumes "0 \<le> now" "list_all (\<lambda>d. d < 36) rnd"
  shows "list_all is_az09 (new_id now rnd)" "new_id now rnd \<noteq> []"
proof -
  have "list_all is_az09 (map digit36 rnd)"
    using assms(2) by (simp add: list_all_iff is_az09_digit36)
  then have "list_all is_az09 (take 6 (map digit36 rnd))"
    unfolding list_all_iff using in_set_takeD by fast
  then show "list_all is_az09 (new_id now rnd)"
    using assms(1) by (simp add: new_id_def toString36_def random_suffix is_az09_digits36)
  show "new_id now rnd \<noteq> []"
    using assms(1) by (simp add: new_id_def toString36_def digits36_nonempty)
qed

lemma valid_filename_stem:
  assumes "list_all is_az09 stem" "rest = [] \<or> \<not> is_az09 (hd rest)"
  shows "takeWhile is_az09 (stem @ rest) = stem" "dropWhile is_az09 (stem @ rest) = rest"
proof -
  have all: "\<forall>c\<in>set stem. is_az09 c" using assms(1) by (simp add: list_all_iff)
  have tw: "takeWhile is_az09 rest = []" using assms(2) by (cases rest) auto
  have dw: "dropWhile is_az09 rest = rest" using assms(2) by (cases rest) auto
  show "takeWhile is_az09 (stem @ rest) = stem" using all tw by (simp add: takeWhile_append2)
  show "dropWhile is_az09 (stem @ rest) = rest" using all dw by (simp add: dropWhile_append2)
qed

lemma valid_filename_iff: "valid_filename filename \<longleftrightarrow> matches_pattern filename"
proof
  assume v: "valid_filename filename"
  let ?stem = "takeWhile is_az09 filename"
  let ?rest = "dropWhile is_az09 filename"
  have split: "filename = ?stem @ ?rest" by simp
  have stem: "?stem \<noteq> []" "list_all is_az09 ?stem"
    using v by (auto simp: valid_filename_def Let_def list_all_iff dest: set_takeWhileD)
  have "?rest = js ''.ico'' \<or> ?rest = js ''.icns''"
    using v by (simp add: valid_filename_def Let_def)
  then have "?rest = js ''.'' @ js ''ico'' \<or> ?rest = js ''.'' @ js ''icns''"
    by (simp add: js_def)
  then show "matches_pattern filename"
    unfolding matches_pattern_def using split stem by metis
next
  assume "matches_pattern filename"
  then obtain stem ext where f: "filename = stem @ js ''.'' @ ext" and ne: "stem \<noteq> []"
    and all: "list_all is_az09 stem" and ext: "ext = js ''ico'' \<or> ext = js ''icns''"
    unfolding matches_pattern_def by blast
  have hd: "js ''.'' @ ext = [] \<or> \<not> is_az09 (hd (js ''.'' @ ext))"
    by (simp add: js_def dot_not_az09)
  have tw: "takeWhile is_az09 filename = stem" and dw: "dropWhile is_az09 filename = js ''.'' @ ext"
    unfolding f using valid_filename_stem[OF all hd] by auto
  show "valid_filename filename"
    unfolding valid_filename_def Let_def tw dw using ne ext by (auto simp: js_def)
qed

lemma valid_filename_id:
  assumes "list_all is_az09 ident" "ident \<noteq> []"
  shows "valid_filename (ident @ js ''.ico'')" "valid_filename (ident @ js ''.icns'')"
proof -
  have "matches_pattern (ident @ js ''.'' @ js ''ico'')" "matches_pattern (ident @ js ''.'' @ js ''icns'')"
    unfolding matches_pattern_def using assms by blast+
  then show "valid_filename (ident @ js ''.ico'')" "valid_filename (ident @ js ''.icns'')"
    by (simp_all add: valid_filename_iff js_def)
qed

text \<open>Different time stamps, or different first six digits, give different identifiers.\<close>

lemma unat_digit36: "d < 36 \<Longrightarrow> unat (digit36 d) = (if d < 10 then 48 + d else 87 + d)"
proof -
  assume d: "d < 36"
  have "unat (of_nat (48 + d) :: jschar) = 48 + d" "unat (of_nat (87 + d) :: jschar) = 87 + d"
    using d by (simp_all only: unat_of_nat16)
  then show ?thesis
    by (simp add: digit36_def del: of_nat_add)
qed

lemma digit36_inj:
  assumes "d < 36" "e < 36" "digit36 d = digit36 e"
  shows "d = e"
proof -
  have "unat (digit36 d) = unat (digit36 e)" using assms(3) by simp
  then show ?thesis
    using assms(1,2) by (simp add: unat_digit36 split: if_splits)
qed

lemma length_digits36_ge2: "\<not> n < 36 \<Longrightarrow> 2 \<le> length (digits36 n)"
proof -
  assume "\<not> n < 36"
  then have "digits36 n = digits36 (n div 36) @ [digit36 (n mod 36)]"
    by (subst digits36.simps) simp
  moreover have "1 \<le> length (digits36 (n div 36))"
    using digits36_nonempty [of "n div 36"] by (cases "digits36 (n div 36)") simp_all
  ultimately show ?thesis by simp
qed

lemma digits36_inj: "digits36 n = digits36 m \<Longrightarrow> n = m"
proof (induction n arbitrary: m rule: digits36.induct)
  case (1 n)
  show ?case
  proof (cases "n < 36")
    case True
    then have n: "digits36 n = [digit36 n]" by (subst digits36.simps) simp
    have m: "m < 36"
    proof (rule ccontr)
      assume "\<not> m < 36"
      then have "2 \<le> length (digits36 m)" by (rule length_digits36_ge2)
      moreover have "length (digits36 m) = 1" using "1.prems" n by (metis length_Cons list.size(3) One_nat_def)
      ultimately show False by simp
    qed
    then have "digits36 m = [digit36 m]" by (subst digits36.simps) simp
    then show ?thesis using "1.prems" n True m digit36_inj by simp
  next
    case False
    then have n: "digits36 n = digits36 (n div 36) @ [digit36 (n mod 36)]"
      by (subst digits36.simps) simp
    have m: "\<not> m < 36"
    proof
      assume "m < 36"
      then have "digits36 m = [digit36 m]" by (subst digits36.simps) simp
      then have "length (digits36 n) = 1" using "1.prems" by simp
      then show False using length_digits36_ge2 [OF False] by simp
    qed
    then have "digits36 m = digits36 (m div 36) @ [digit36 (m mod 36)]"
      by (subst digits36.simps) simp
    then have eq: "digits36 (n div 36) = digits36 (m div 36)"
      and last: "digit36 (n mod 36) = digit36 (m mod 36)"
      using "1.prems" n by simp_all
    have "n div 36 = m div 36" using "1.IH" [OF False eq] .
    moreover have "n mod 36 = m mod 36"
      using last by (intro digit36_inj) simp_all
    ultimately show ?thesis by (metis div_mult_mod_eq)
  qed
qed

lemma new_id_shape:
  "0 \<le> now \<Longrightarrow> new_id now rnd = digits36 (nat now) @ map digit36 (take 6 rnd)"
  by (simp add: new_id_def toString36_def random_suffix take_map)

lemma map_digit36_inj:
  assumes "list_all (\<lambda>d. d < 36) xs" "list_all (\<lambda>d. d < 36) ys"
    and "map digit36 xs = map digit36 ys"
  shows "xs = ys"
proof -
  have "inj_on digit36 (set xs \<union> set ys)"
    using assms(1,2) digit36_inj unfolding inj_on_def list_all_iff by blast
  then show ?thesis using assms(3) by (simp add: inj_on_map_eq_map)
qed

lemma new_id_unique:
  assumes now: "0 \<le> now" "0 \<le> now'"
    and rnd: "list_all (\<lambda>d. d < 36) rnd" "list_all (\<lambda>d. d < 36) rnd'"
    and len: "length (toString36 now') = length (toString36 now)"
    and same: "new_id now' rnd' = new_id now rnd"
  shows "now' = now \<and> take 6 rnd' = take 6 rnd"
proof -
  have len': "length (digits36 (nat now')) = length (digits36 (nat now))"
    using len now by (simp add: toString36_def)
  have "digits36 (nat now') @ map digit36 (take 6 rnd')
          = digits36 (nat now) @ map digit36 (take 6 rnd)"
    using same now by (simp add: new_id_shape)
  then have stamp: "digits36 (nat now') = digits36 (nat now)"
    and suffix: "map digit36 (take 6 rnd') = map digit36 (take 6 rnd)"
    using len' by simp_all
  have "nat now' = nat now" using stamp by (rule digits36_inj)
  then have "now' = now" using now by simp
  moreover have "take 6 rnd' = take 6 rnd"
  proof (rule map_digit36_inj [OF _ _ suffix])
    show "list_all (\<lambda>d. d < 36) (take 6 rnd')" "list_all (\<lambda>d. d < 36) (take 6 rnd)"
      using rnd unfolding list_all_iff by (auto dest: in_set_takeD)
  qed
  ultimately show ?thesis by simp
qed

subsection \<open>The output directory, the timers and the download handler\<close>

lemma cleanup_try_eq: "cleanup_try a b fs = (None, fs(a := None, b := None))"
proof -
  have first: "(if existsSync fs a then unlinkSync fs a else Inr fs) = Inr (fs(a := None))"
    by (auto simp: existsSync_def unlinkSync_def split: option.splits)
  have second: "(if existsSync (fs(a := None)) b then unlinkSync (fs(a := None)) b
                 else Inr (fs(a := None))) = Inr (fs(a := None, b := None))"
    by (auto simp: existsSync_def unlinkSync_def split: option.splits)
  show ?thesis
    unfolding cleanup_try_def first sum.case second by simp
qed

lemma cleanup_eq: "cleanup a b fs = fs(a := None, b := None)"
  by (simp add: cleanup_def cleanup_try_eq)

lemma fold_fire_apply:
  "fold fire tms fs p = (if \<exists>tm\<in>set tms. p = ico tm \<or> p = icns tm then None else fs p)"
proof (induction tms arbitrary: fs)
  case Nil
  then show ?case by simp
next
  case (Cons tm tms)
  show ?case
    unfolding fold_simps Cons.IH by (auto simp: fire_def cleanup_eq)
qed

lemma files_advance:
  "files (advance t s) p =
     (if \<exists>tm\<in>set (timers s). due tm \<le> t \<and> (p = ico tm \<or> p = icns tm) then None
      else files s p)"
  by (auto simp: advance_def fold_fire_apply)

lemma files_advance_fresh:
  assumes "\<forall>tm\<in>set (timers s). due tm \<le> t \<longrightarrow> p \<noteq> ico tm \<and> p \<noteq> icns tm"
  shows "files (advance t s) p = files s p"
  using assms by (auto simp: files_advance)

lemma files_setTimeout: "files (setTimeout d a b s) = files s"
  by (simp add: setTimeout_def)

lemma timers_setTimeout:
  "timers (setTimeout d a b s) = timers s @ [\<lparr>due = clock s + d, ico = a, icns = b\<rparr>]"
  by (simp add: setTimeout_def)

lemma path_join_eq: "path_join dir a = path_join dir b \<longleftrightarrow> a = b"
  by (simp add: path_join_def)

lemma ico_neq_icns: "ident @ js ''.ico'' \<noteq> ident @ js ''.icns''"
  by (simp add: js_def)

lemma icoPath_neq_icnsPath: "icoPath env now rnd \<noteq> icnsPath env now rnd"
  using ico_neq_icns[of "new_id now rnd"] by (simp only: path_join_eq not_False_eq_True)

lemma extname_ico:
  assumes "list_all is_az09 ident" "ident \<noteq> []"
  shows "extname (ident @ js ''.ico'') = js ''.ico''"
proof -
  have nodot: "\<forall>c\<in>set (rev ident). c \<noteq> 46"
    using assms(1) dot_not_az09 by (auto simp: list_all_iff)
  have "rev (ident @ js ''.ico'') = [111, 99, 105] @ 46 # rev ident"
    by (simp add: js_def)
  then have tw: "takeWhile (\<lambda>c. c \<noteq> 46) (rev (ident @ js ''.ico'')) = [111, 99, 105]"
    by simp
  have len: "length (ident @ js ''.ico'') = length ident + 4" by (simp add: js_def)
  show ?thesis
    unfolding extname_def tw Let_def len using assms(2) by (simp add: js_def)
qed

lemma extname_icns:
  assumes "list_all is_az09 ident" "ident \<noteq> []"
  shows "extname (ident @ js ''.icns'') = js ''.icns''"
proof -
  have "rev (ident @ js ''.icns'') = [115, 110, 99, 105] @ 46 # rev ident"
    by (simp add: js_def)
  then have tw: "takeWhile (\<lambda>c. c \<noteq> 46) (rev (ident @ js ''.icns'')) = [115, 110, 99, 105]"
    by simp
  have len: "length (ident @ js ''.icns'') = length ident + 5" by (simp add: js_def)
  show ?thesis
    unfolding extname_def tw Let_def len using assms(2) by (simp add: js_def)
qed

lemma download_invalid:
  "\<not> valid_filename filename \<Longrightarrow> download env filename s = (Status 400 (js ''Invalid filename''), [])"
  by (simp add: download_def)

lemma download_absent:
  "valid_filename filename \<Longrightarrow> files s (path_join (outputDir env) filename) = None \<Longrightarrow>
   download env filename s
     = (Status 404 (js ''File not found or expired''), [ExistsSync (path_join (outputDir env) filename)])"
  by (simp add: download_def)

lemma download_ico:
  assumes "list_all is_az09 ident" "ident \<noteq> []"
    and "files s (path_join (outputDir env) (ident @ js ''.ico'')) = Some bytes"
  shows "fst (download env (ident @ js ''.ico'') s)
     = File (js ''image/x-icon'')
         (js ''attachment; filename='' @ [34] @ (ident @ js ''.ico'') @ [34]) bytes"
proof -
  have ext: "drop 1 (extname (ident @ js ''.ico'')) = js ''ico''"
    unfolding extname_ico[OF assms(1,2)] by (simp add: js_def)
  show ?thesis
    unfolding download_def Let_def ext
    using assms(3) valid_filename_id(1)[OF assms(1,2)] by simp
qed

lemma download_icns:
  assumes "list_all is_az09 ident" "ident \<noteq> []"
    and "files s (path_join (outputDir env) (ident @ js ''.icns'')) = Some bytes"
  shows "fst (download env (ident @ js ''.icns'') s)
     = File (js ''image/icns'')
         (js ''attachment; filename='' @ [34] @ (ident @ js ''.icns'') @ [34]) bytes"
proof -
  have ext: "drop 1 (extname (ident @ js ''.icns'')) = js ''icns''"
    unfolding extname_icns[OF assms(1,2)] by (simp add: js_def)
  have neq: "js ''icns'' \<noteq> js ''ico''"
    by (simp add: js_def)
  show ?thesis
    unfolding download_def Let_def ext
    using assms(3) valid_filename_id(2)[OF assms(1,2)] neq by simp
qed

lemma valid_filename_kind:
  assumes kind: "kind = js ''ico'' \<or> kind = js ''icns''"
  shows "valid_filename (ident @ js ''.'' @ kind) \<longleftrightarrow> ident \<noteq> [] \<and> list_all is_az09 ident"
proof
  assume wf: "ident \<noteq> [] \<and> list_all is_az09 ident"
  then have "matches_pattern (ident @ js ''.'' @ kind)"
    unfolding matches_pattern_def using kind by blast
  then show "valid_filename (ident @ js ''.'' @ kind)" by (simp add: valid_filename_iff)
next
  assume v: "valid_filename (ident @ js ''.'' @ kind)"
  let ?rest = "dropWhile is_az09 (ident @ js ''.'' @ kind)"
  have rest: "?rest = js ''.ico'' \<or> ?rest = js ''.icns''"
    and stem: "takeWhile is_az09 (ident @ js ''.'' @ kind) \<noteq> []"
    using v by (simp_all add: valid_filename_def Let_def)
  have all: "\<forall>c\<in>set ident. is_az09 c"
  proof (rule ccontr)
    assume "\<not> (\<forall>c\<in>set ident. is_az09 c)"
    then have r: "?rest = dropWhile is_az09 ident @ js ''.'' @ kind"
      and d: "dropWhile is_az09 ident \<noteq> []"
      by (auto simp: dropWhile_append)
    have "length ?rest \<ge> 2 + length kind"
      unfolding r using d by (cases "dropWhile is_az09 ident") (simp_all add: js_def)
    moreover have "last ?rest = last kind"
      unfolding r using kind by (auto simp: js_def)
    ultimately show False
      using rest kind by (auto simp: js_def)
  qed
  have "ident \<noteq> []"
  proof
    assume "ident = []"
    then have "takeWhile is_az09 (ident @ js ''.'' @ kind) = []"
      by (simp add: js_def dot_not_az09)
    then show False using stem by simp
  qed
  then show "ident \<noteq> [] \<and> list_all is_az09 ident"
    using all by (simp add: list_all_iff)
qed

subsection \<open>The convert handler, case by case\<close>

lemma five_minutes_ms: "5 * 60 * 1000 = (300000::nat)"
  by simp

lemma icns_stage_eq:
  "icns_stage env img icoF icnsF s =
     (case icnsEntries env img of
        Inl err \<Rightarrow>
          (ServerError err, s, snd (icns_fanout env img))
      | Inr es \<Rightarrow>
          (case buildIcns (kMaxLength env) es of
             Inl err \<Rightarrow>
               (ServerError err, s,
                snd (icns_fanout env img) @ [BuildIcns es])
           | Inr icnsBuffer \<Rightarrow>
               (Json (js ''/api/download/'' @ icoF) (js ''/api/download/'' @ icnsF),
                setTimeout 300000 (path_join (outputDir env) icoF)
                  (path_join (outputDir env) icnsF)
                  (s\<lparr>files := (files s)(path_join (outputDir env) icnsF \<mapsto> icnsBuffer)\<rparr>),
                snd (icns_fanout env img)
                  @ [BuildIcns es,
                     WriteFileSync (path_join (outputDir env) icnsF) icnsBuffer,
                     SetTimeout 300000 (path_join (outputDir env) icoF)
                       (path_join (outputDir env) icnsF)])))"
  unfolding icns_stage_def Let_def five_minutes_ms writeFileSync_def
  by (simp add: case_prod_beta split: sum.splits)

lemma convert_eq:
  "convert env now rnd (Some img) s =
     (case pngBuffersForIco env img of
        Inl err \<Rightarrow> (ServerError err, s, snd (ico_fanout env img))
      | Inr pngs \<Rightarrow>
          (case pngToIco env pngs of
             Inl err \<Rightarrow>
               (ServerError err, s,
                snd (ico_fanout env img) @ [PngToIco pngs])
           | Inr icoBuffer \<Rightarrow>
               (case icns_stage env img (new_id now rnd @ js ''.ico'') (new_id now rnd @ js ''.icns'')
                       (s\<lparr>files := (files s)(path_join (outputDir env) (new_id now rnd @ js ''.ico'')
                                          \<mapsto> icoBuffer)\<rparr>) of
                  (res, s2, evs) \<Rightarrow>
                    (res, s2,
                     snd (ico_fanout env img)
                       @ [PngToIco pngs,
                          WriteFileSync (path_join (outputDir env) (new_id now rnd @ js ''.ico''))
                            icoBuffer]
                       @ evs))))"
  unfolding convert_def Let_def writeFileSync_def
  by (simp split: sum.splits)

lemma convert_outcomes:
  assumes run: "convert env now rnd (Some img) s = (res, s', evs)"
  obtains
    (ico_resize) err where "pngBuffersForIco env img = Inl err"
      "res = ServerError err" "s' = s"
      "evs = (if img = [] then [] else map (\<lambda>sz. Resize (resize_request img sz)) ICO_SIZES)"
  | (ico_encode) pngs err where "pngBuffersForIco env img = Inr pngs" "pngToIco env pngs = Inl err"
      "res = ServerError err" "s' = s"
      "evs = map (\<lambda>sz. Resize (resize_request img sz)) ICO_SIZES @ [PngToIco pngs]"
      "img \<noteq> []"
  | (icns_resize) pngs icoBuffer err where "pngBuffersForIco env img = Inr pngs"
      "pngToIco env pngs = Inr icoBuffer" "icnsEntries env img = Inl err"
      "res = ServerError err"
      "s' = s\<lparr>files := (files s)(icoPath env now rnd \<mapsto> icoBuffer)\<rparr>"
      "evs = map (\<lambda>sz. Resize (resize_request img sz)) ICO_SIZES
             @ [PngToIco pngs, WriteFileSync (icoPath env now rnd) icoBuffer]
             @ map (\<lambda>p. Resize (resize_request img (fst p))) ICNS_SIZES"
      "img \<noteq> []"
  | (icns_encode) pngs icoBuffer es err where "pngBuffersForIco env img = Inr pngs"
      "pngToIco env pngs = Inr icoBuffer" "icnsEntries env img = Inr es"
      "buildIcns (kMaxLength env) es = Inl err"
      "res = ServerError err"
      "s' = s\<lparr>files := (files s)(icoPath env now rnd \<mapsto> icoBuffer)\<rparr>"
      "evs = map (\<lambda>sz. Resize (resize_request img sz)) ICO_SIZES
             @ [PngToIco pngs, WriteFileSync (icoPath env now rnd) icoBuffer]
             @ map (\<lambda>p. Resize (resize_request img (fst p))) ICNS_SIZES @ [BuildIcns es]"
      "img \<noteq> []"
  | (converted) pngs icoBuffer es icnsBuffer where "pngBuffersForIco env img = Inr pngs"
      "pngToIco env pngs = Inr icoBuffer" "icnsEntries env img = Inr es"
      "buildIcns (kMaxLength env) es = Inr icnsBuffer"
      "res = Json (js ''/api/download/'' @ icoFilename now rnd)
                  (js ''/api/download/'' @ icnsFilename now rnd)"
      "s' = setTimeout 300000 (icoPath env now rnd) (icnsPath env now rnd)
              (s\<lparr>files := (files s)(icoPath env now rnd \<mapsto> icoBuffer,
                                      icnsPath env now rnd \<mapsto> icnsBuffer)\<rparr>)"
      "evs = map (\<lambda>sz. Resize (resize_request img sz)) ICO_SIZES
             @ [PngToIco pngs, WriteFileSync (icoPath env now rnd) icoBuffer]
             @ map (\<lambda>p. Resize (resize_request img (fst p))) ICNS_SIZES
             @ [BuildIcns es, WriteFileSync (icnsPath env now rnd) icnsBuffer,
                SetTimeout 300000 (icoPath env now rnd) (icnsPath env now rnd)]"
      "img \<noteq> []"
proof (cases "pngBuffersForIco env img")
  case (Inl err)
  then show ?thesis using run ico_resize by (simp add: convert_eq ico_calls)
next
  case pngs: (Inr pngs)
  note ne = pngBuffersForIco_Inr_nonempty [OF pngs]
  show ?thesis
  proof (cases "pngToIco env pngs")
    case (Inl err)
    then show ?thesis using run pngs ne ico_encode by (simp add: convert_eq ico_calls)
  next
    case ico: (Inr icoBuffer)
    show ?thesis
    proof (cases "icnsEntries env img")
      case (Inl err)
      then show ?thesis using run pngs ico ne icns_resize
        by (simp add: convert_eq icns_stage_eq ico_calls icns_calls)
    next
      case es: (Inr es)
      show ?thesis
      proof (cases "buildIcns (kMaxLength env) es")
        case (Inl err)
        then show ?thesis using run pngs ico es ne icns_encode
          by (simp add: convert_eq icns_stage_eq ico_calls icns_calls)
      next
        case (Inr icnsBuffer)
        then show ?thesis using run pngs ico es ne converted
          by (simp add: convert_eq icns_stage_eq ico_calls icns_calls)
      qed
    qed
  qed
qed

lemma resize_calls_simps:
  "resize_calls [] = []"
  "resize_calls (xs @ ys) = resize_calls xs @ resize_calls ys"
  "resize_calls (Resize c # xs) = c # resize_calls xs"
  "resize_calls (PngToIco pngs # xs) = resize_calls xs"
  "resize_calls (BuildIcns es # xs) = resize_calls xs"
  "resize_calls (WriteFileSync p bytes # xs) = resize_calls xs"
  "resize_calls (SetTimeout d a b # xs) = resize_calls xs"
  by (simp_all add: resize_calls_def)

lemma resize_calls_map: "resize_calls (map (\<lambda>x. Resize (f x)) xs) = map f xs"
  by (induction xs) (simp_all add: resize_calls_simps)

lemma length_tables: "length ICO_SIZES = 7" "length ICNS_SIZES = 7"
  by (simp_all add: ICO_SIZES_def ICNS_SIZES_def)

lemma PngToIco_in_events:
  assumes run: "convert env now rnd (Some img) s = (res, s', evs)"
    and ev: "PngToIco pngs \<in> set evs"
  shows "pngBuffersForIco env img = Inr pngs"
  using run
proof (cases rule: convert_outcomes)
  case (ico_resize err)
  then show ?thesis using ev by (auto split: if_splits)
next
  case (ico_encode pngs err)
  then show ?thesis using ev by auto
next
  case (icns_resize pngs icoBuffer err)
  then show ?thesis using ev by auto
next
  case (icns_encode pngs icoBuffer es err)
  then show ?thesis using ev by auto
next
  case (converted pngs icoBuffer es icnsBuffer)
  then show ?thesis using ev by auto
qed

lemma BuildIcns_in_events:
  assumes run: "convert env now rnd (Some img) s = (res, s', evs)"
    and ev: "BuildIcns es \<in> set evs"
  shows "icnsEntries env img = Inr es"
  using run
proof (cases rule: convert_outcomes)
  case (ico_resize err)
  then show ?thesis using ev by (auto split: if_splits)
next
  case (ico_encode pngs err)
  then show ?thesis using ev by auto
next
  case (icns_resize pngs icoBuffer err)
  then show ?thesis using ev by auto
next
  case (icns_encode pngs icoBuffer es err)
  then show ?thesis using ev by auto
next
  case (converted pngs icoBuffer es icnsBuffer)
  then show ?thesis using ev by auto
qed

subsection \<open>The sample runs, evaluated\<close>

lemma new_id_sample: "new_id 1000 [18] = js ''rsi''"
  by (simp add: new_id_def toString36_def digits36.simps random_suffix digit36_def js_def)

lemma sample_inputs: "0 \<le> (1000::int)" "list_all (\<lambda>d. d < 36) [18::nat]"
  by simp_all

lemma sample_names:
  "icoFilename 1000 [18] = js ''rsi.ico''" "icnsFilename 1000 [18] = js ''rsi.icns''"
  by (simp_all add: new_id_sample js_def)

lemma sample_paths:
  "icoPath sample_env 1000 [18] = js ''/srv/output/rsi.ico''"
  "icnsPath sample_env 1000 [18] = js ''/srv/output/rsi.icns''"
  "icoPath flaky_env 1000 [18] = js ''/srv/output/rsi.ico''"
  "icnsPath flaky_env 1000 [18] = js ''/srv/output/rsi.icns''"
  by (simp_all add: new_id_sample path_join_def sample_env_def flaky_env_def js_def)

lemma sample_dir: "path_join (outputDir sample_env) (js ''rsi'' @ js ''.'' @ js ''ico'') = js ''/srv/output/rsi.ico''"
  by (simp add: path_join_def sample_env_def js_def)

lemma sample_dir_names:
  "path_join (outputDir sample_env) (js ''rsi.ico'') = js ''/srv/output/rsi.ico''"
  "path_join (outputDir sample_env) (js ''rsi.icns'') = js ''/srv/output/rsi.icns''"
  by (simp_all add: path_join_def sample_env_def js_def)

lemma pngBuffersForIco_sample:
  "pngBuffersForIco sample_env sample_image = Inr [[16], [24], [32], [48], [64], [128], [0]]"
  "pngBuffersForIco flaky_env sample_image = Inr [[16], [24], [32], [48], [64], [128], [0]]"
  "pngBuffersForIco broken_env sample_image = Inl (Rejected (js ''unsupported image format''))"
  by (simp_all add: pngBuffersForIco_nonempty sample_image_nonempty ICO_SIZES_def sample_env_def
        flaky_env_def broken_env_def
        resize_request_def)

lemma pngToIco_sample:
  "pngToIco sample_env [[16], [24], [32], [48], [64], [128], [0]] = Inr [16, 24, 32, 48, 64, 128, 0]"
  "pngToIco flaky_env [[16], [24], [32], [48], [64], [128], [0]] = Inr [16, 24, 32, 48, 64, 128, 0]"
  by (simp_all add: sample_env_def flaky_env_def)

lemma icnsEntries_flaky: "icnsEntries flaky_env sample_image = Inl (Rejected (js ''out of memory''))"
  by (simp add: icnsEntries_nonempty sample_image_nonempty ICNS_SIZES_def flaky_env_def
        sample_env_def resize_request_def)

lemma icnsSize_sample_table: "icnsSize sample_table_entries = 71"
  by (simp add: icnsSize_def sample_table_entries_def)

lemma buildIcns_sample_table:
  "buildIcns (kMaxLength sample_env) sample_table_entries
     = Inr ([105, 99, 110, 115] @ u32be 71 @ concat (map entryBytes sample_table_entries))"
  by (simp add: buildIcns_eq icnsSize_sample_table sample_env_def)

lemma flaky_run_eq:
  "fst flaky_run = ServerError (Rejected (js ''out of memory''))"
  "fst (snd flaky_run)
     = empty_server\<lparr>files := (files empty_server)(js ''/srv/output/rsi.ico'' \<mapsto> [16, 24, 32, 48, 64, 128, 0])\<rparr>"
  unfolding flaky_run_def convert_eq pngBuffersForIco_sample pngToIco_sample sum.case
    icns_stage_eq icnsEntries_flaky sample_paths
  by simp_all

lemma broken_run_eq:
  "broken_run = (ServerError (Rejected (js ''unsupported image format'')), empty_server,
     map (\<lambda>sz. Resize (resize_request sample_image sz)) ICO_SIZES)"
  unfolding broken_run_def convert_eq pngBuffersForIco_sample sum.case
  by (simp add: ico_calls sample_image_nonempty)

lemma sample_run_eq:
  "fst sample_run = Json (js ''/api/download/rsi.ico'') (js ''/api/download/rsi.icns'')"
  "fst (snd sample_run)
     = setTimeout 300000 (js ''/srv/output/rsi.ico'') (js ''/srv/output/rsi.icns'')
        (empty_server\<lparr>files := (files empty_server)
           (js ''/srv/output/rsi.ico'' \<mapsto> [16, 24, 32, 48, 64, 128, 0],
            js ''/srv/output/rsi.icns'' \<mapsto>
              [105, 99, 110, 115] @ u32be 71 @ concat (map entryBytes sample_table_entries))\<rparr>)"
  unfolding sample_run_def convert_eq pngBuffersForIco_sample pngToIco_sample sum.case
    icns_stage_eq icnsEntries_sample buildIcns_sample_table sample_paths
  by (simp_all add: new_id_sample js_def)

lemma run_triple: "r = (fst r, fst (snd r), snd (snd r))"
  by simp

lemma sample_run_Json:
  "convert sample_env 1000 [18] (Some sample_image) empty_server
     = (Json (js ''/api/download/rsi.ico'') (js ''/api/download/rsi.icns''),
        fst (snd sample_run), snd (snd sample_run))"
  using run_triple [of sample_run] unfolding sample_run_eq(1) by (simp add: sample_run_def)

lemma sample_files:
  "files (fst (snd sample_run)) (js ''/srv/output/rsi.ico'') = Some [16, 24, 32, 48, 64, 128, 0]"
  "files (fst (snd sample_run)) (js ''/srv/output/rsi.icns'')
     = Some ([105, 99, 110, 115] @ u32be 71 @ concat (map entryBytes sample_table_entries))"
  unfolding sample_run_eq files_setTimeout by (simp_all add: js_def)

subsection \<open>What a request leaves in the store\<close>

text \<open>
  C4, as the code has it. With a resizer that fails on the 512 pixel ICNS resize the
  request answers 500, and the \<open>.ico\<close> file written before the ICNS fan-out remains
  in the output directory without an \<open>.icns\<close> file.
\<close>

theorem partial_result_stored:
  "fst flaky_run = ServerError (Rejected (js ''out of memory''))
   \<and> files (fst (snd flaky_run)) (js ''/srv/output/rsi.ico'') = Some [16, 24, 32, 48, 64, 128, 0]
   \<and> files (fst (snd flaky_run)) (js ''/srv/output/rsi.icns'') = None"
  unfolding flaky_run_eq by (simp add: empty_server_def js_def)

text \<open>
  On that path the handler does not reach \<open>setTimeout\<close>: no timer is pending for
  the file it has left behind.
\<close>

lemma partial_result_not_scheduled: "timers (fst (snd flaky_run)) = []"
  unfolding flaky_run_eq by (simp add: empty_server_def)

text \<open>
  C4, amended. When a stage of the ICO half fails (an ICO resize or the ICO encoder)
  the store is left as it was. Once the ICO half has succeeded the \<open>.ico\<close> file is
  written at once and stays, whatever happens next, so a failure in the ICNS half (an
  ICNS resize or \<open>buildIcns\<close>) leaves it stored without its \<open>.icns\<close> file. A
  request that succeeds stores both files, a request that fails stores no \<open>.icns\<close>
  file, and no other file is touched.
\<close>

theorem convert_store_outcomes:
  assumes run: "convert env now rnd (Some img) s = (res, s', evs)"
  shows "((\<exists>u1 u2. res = Json u1 u2) \<longrightarrow>
            files s' (icoPath env now rnd) \<noteq> None \<and> files s' (icnsPath env now rnd) \<noteq> None)
       \<and> ((\<exists>err. pngBuffersForIco env img = Inl err)
            \<or> (\<exists>pngs err. pngBuffersForIco env img = Inr pngs \<and> pngToIco env pngs = Inl err)
            \<longrightarrow> s' = s)
       \<and> (\<forall>pngs icoBuffer.
             pngBuffersForIco env img = Inr pngs \<and> pngToIco env pngs = Inr icoBuffer \<longrightarrow>
             files s' (icoPath env now rnd) = Some icoBuffer)
       \<and> ((\<exists>err. res = ServerError err) \<longrightarrow>
             files s' (icnsPath env now rnd) = files s (icnsPath env now rnd))
       \<and> (\<forall>p. p \<noteq> icoPath env now rnd \<and> p \<noteq> icnsPath env now rnd \<longrightarrow> files s' p = files s p)"
  using run
proof (cases rule: convert_outcomes)
  case (ico_resize err)
  then show ?thesis by simp
next
  case (ico_encode pngs err)
  then show ?thesis by simp
next
  case (icns_resize pngs icoBuffer err)
  then show ?thesis using icoPath_neq_icnsPath[of env now rnd] by simp
next
  case (icns_encode pngs icoBuffer es err)
  then show ?thesis using icoPath_neq_icnsPath[of env now rnd] by simp
next
  case (converted pngs icoBuffer es icnsBuffer)
  then show ?thesis using icoPath_neq_icnsPath[of env now rnd] by (simp add: files_setTimeout)
qed

theorem convert_store_outcomes_witness:
  "fst sample_run = Json (js ''/api/download/rsi.ico'') (js ''/api/download/rsi.icns'')
   \<and> files (fst (snd sample_run)) (js ''/srv/output/rsi.ico'') = Some [16, 24, 32, 48, 64, 128, 0]
   \<and> files (fst (snd sample_run)) (js ''/srv/output/rsi.icns'') \<noteq> None
   \<and> pngBuffersForIco broken_env sample_image = Inl (Rejected (js ''unsupported image format''))
   \<and> fst (snd broken_run) = empty_server
   \<and> fst flaky_run = ServerError (Rejected (js ''out of memory''))
   \<and> files (fst (snd flaky_run)) (js ''/srv/output/rsi.icns'')
       = files empty_server (js ''/srv/output/rsi.icns'')"
proof -
  have ok: "convert sample_env 1000 [18] (Some sample_image) empty_server
              = (fst sample_run, fst (snd sample_run), snd (snd sample_run))"
    unfolding sample_run_def by (rule run_triple)
  have flaky: "convert flaky_env 1000 [18] (Some sample_image) empty_server
              = (fst flaky_run, fst (snd flaky_run), snd (snd flaky_run))"
    unfolding flaky_run_def by (rule run_triple)
  have broken: "convert broken_env 1000 [18] (Some sample_image) empty_server
              = (fst broken_run, fst (snd broken_run), snd (snd broken_run))"
    unfolding broken_run_def by (rule run_triple)
  note a = convert_store_outcomes [OF ok, unfolded sample_paths]
  note b = convert_store_outcomes [OF flaky, unfolded sample_paths]
  note c = convert_store_outcomes [OF broken]
  have a1: "files (fst (snd sample_run)) (js ''/srv/output/rsi.ico'') = Some [16, 24, 32, 48, 64, 128, 0]"
    using a pngBuffersForIco_sample(1) pngToIco_sample(1) by blast
  have a2: "files (fst (snd sample_run)) (js ''/srv/output/rsi.icns'') \<noteq> None"
    using a sample_run_eq(1) by blast
  have b1: "files (fst (snd flaky_run)) (js ''/srv/output/rsi.icns'')
       = files empty_server (js ''/srv/output/rsi.icns'')"
    using b flaky_run_eq(1) by blast
  have c1: "fst (snd broken_run) = empty_server"
    using c pngBuffersForIco_sample(3) by blast
  show ?thesis
    using a1 a2 b1 c1 sample_run_eq(1) flaky_run_eq(1) pngBuffersForIco_sample(3) by simp
qed

subsection \<open>The resize fan-out\<close>

lemma png_dims_header:
  assumes "w \<le> 4294967295" "h \<le> 4294967295"
  shows "png_dims (png_header w h) = Some (w, h)"
proof -
  let ?ihdr = "map asciiByte (js ''IHDR'')"
  have len: "length (js ''IHDR'') = 4" by (simp add: js_def)
  have sig: "take 8 (png_header w h) = png_signature"
    by (simp add: png_header_def png_signature_def)
  have ihdr: "?ihdr = [73, 72, 68, 82]" by (simp add: js_def asciiByte_def)
  have tag: "take 4 (drop 12 (png_header w h)) = ?ihdr"
    unfolding ihdr by (simp add: png_header_def png_signature_def length_u32be ihdr)
  have "readUInt32BE ((png_signature @ u32be 13 @ ?ihdr) @ u32be w @ u32be h) 16 = Inr w"
    using assms(1) by (rule readUInt32BE_u32be) (simp add: png_signature_def length_u32be len)
  then have rw: "readUInt32BE (png_header w h) 16 = Inr w"
    by (simp add: png_header_def)
  have "readUInt32BE ((png_signature @ u32be 13 @ ?ihdr @ u32be w) @ u32be h @ []) 20 = Inr h"
    using assms(2) by (rule readUInt32BE_u32be) (simp add: png_signature_def length_u32be len)
  then have rh: "readUInt32BE (png_header w h) 20 = Inr h"
    by (simp add: png_header_def)
  show ?thesis
    unfolding png_dims_def sig tag rw rh by simp
qed

lemma resizer_contract_png_env: "resizer_contract png_env"
  by (auto simp: resizer_contract_def png_env_def sample_env_def png_dims_header split: if_splits)

lemma icnsEntries_succeeds:
  assumes ne: "img \<noteq> []"
    and ok: "\<forall>sz\<in>set (map fst ICNS_SIZES). \<exists>png. sharp env (resize_request img sz) = Inr png"
  shows "\<exists>es. icnsEntries env img = Inr es"
  unfolding icnsEntries_nonempty [OF ne]
proof (rule promise_all_succeeds, rule ballI)
  fix p assume "p \<in> set ICNS_SIZES"
  then obtain png where "sharp env (resize_request img (fst p)) = Inr png"
    using ok by auto
  then show "\<exists>y. (case p of (sz, tag) \<Rightarrow>
                 case sharp env (resize_request img sz) of
                   Inl err \<Rightarrow> Inl err
                 | Inr bytes \<Rightarrow> Inr \<lparr>osType = tag, data = bytes\<rparr>) = Inr y"
    by (cases p) simp
qed

lemma pngBuffersForIco_succeeds:
  assumes ne: "img \<noteq> []"
    and ok: "\<forall>sz\<in>set ICO_SIZES. \<exists>png. sharp env (resize_request img sz) = Inr png"
  shows "\<exists>pngs. pngBuffersForIco env img = Inr pngs"
  unfolding pngBuffersForIco_nonempty [OF ne]
  by (rule promise_all_succeeds) (rule ok)

lemma png_run_triple:
  "convert png_env 1000 [18] (Some sample_image) empty_server
     = (fst png_run, fst (snd png_run), snd (snd png_run))"
  unfolding png_run_def by (rule run_triple)

lemma png_env_accepts:
  "\<forall>sz\<in>set (ICO_SIZES @ map fst ICNS_SIZES).
     \<exists>png. sharp png_env (resize_request sample_image sz) = Inr png"
  by (simp add: ICO_SIZES_def ICNS_SIZES_def png_env_def sample_env_def resize_request_def)

lemma png_env_encodes:
  "\<forall>pngs. pngBuffersForIco png_env sample_image = Inr pngs \<longrightarrow>
     (\<exists>icoBuffer. pngToIco png_env pngs = Inr icoBuffer)"
  by (simp add: png_env_def sample_env_def)

text \<open>
  An upload of no bytes passes the filter like any other, and the constructor of the
  resizer throws on it before the first resize: the request answers 500 with no resize
  run started and nothing stored.
\<close>

lemma empty_upload_no_resize:
  "convert env now rnd (Some []) s
     = (ServerError (Rejected (js ''Input Buffer is empty'')), s, [])"
  by (simp add: convert_eq pngBuffersForIco_def ico_fanout_empty)

text \<open>
  C5. For every accepted source image, that is a non-empty upload on which the
  resizer succeeds at every size of the two tables (the ICO encoder accepting the seven
  bitmaps it is given), the handler performs exactly fourteen resize operations, one
  per entry of the ICO table and one per entry of the ICNS table. Each reads the same
  uploaded buffer with fit \<open>contain\<close> and the background \<open>rgba(0, 0, 0, 0)\<close> and
  produces, under the resizer's contract, a square PNG of the table's edge length. The
  ICO encoder receives the ICO results in table order, \<open>buildIcns\<close> receives the ICNS
  results with their tags in table order, and both tables ascend.
\<close>

theorem convert_resize_calls:
  assumes run: "convert env now rnd (Some img) s = (res, s', evs)"
    and nonempty: "img \<noteq> []"
    and accepted: "\<forall>sz\<in>set (ICO_SIZES @ map fst ICNS_SIZES).
                     \<exists>png. sharp env (resize_request img sz) = Inr png"
    and contract: "resizer_contract env"
    and encoder: "\<forall>pngs. pngBuffersForIco env img = Inr pngs \<longrightarrow>
                    (\<exists>icoBuffer. pngToIco env pngs = Inr icoBuffer)"
  shows "resize_calls evs = map (resize_request img) (ICO_SIZES @ map fst ICNS_SIZES)
       \<and> length (resize_calls evs) = 14
       \<and> (\<forall>c\<in>set (resize_calls evs).
             input c = img \<and> width c = height c \<and> fit c = Contain
             \<and> background c = Rgba 0 0 0 0 \<and> format c = Png
             \<and> (\<exists>png. sharp env c = Inr png \<and> png_dims png = Some (width c, width c)))
       \<and> (\<exists>pngs. PngToIco pngs \<in> set evs
             \<and> map Inr pngs = map (\<lambda>sz. sharp env (resize_request img sz)) ICO_SIZES)
       \<and> (\<exists>es. BuildIcns es \<in> set evs
             \<and> list_all2 (\<lambda>(sz, tag) e. osType e = tag
                          \<and> sharp env (resize_request img sz) = Inr (data e)) ICNS_SIZES es)
       \<and> ICO_SIZES = [16, 24, 32, 48, 64, 128, 256]
       \<and> map fst ICNS_SIZES = [16, 32, 64, 128, 256, 512, 1024]
       \<and> sorted ICO_SIZES \<and> sorted (map fst ICNS_SIZES)"
proof -
  have ico_ok: "\<forall>sz\<in>set ICO_SIZES. \<exists>png. sharp env (resize_request img sz) = Inr png"
    and icns_ok: "\<forall>sz\<in>set (map fst ICNS_SIZES). \<exists>png. sharp env (resize_request img sz) = Inr png"
    using accepted by simp_all
  obtain pngs where pngs: "pngBuffersForIco env img = Inr pngs"
    using pngBuffersForIco_succeeds [OF nonempty ico_ok] by blast
  obtain icoBuffer where ico: "pngToIco env pngs = Inr icoBuffer"
    using encoder pngs by blast
  obtain es where es: "icnsEntries env img = Inr es"
    using icnsEntries_succeeds [OF nonempty icns_ok] by blast
  have events: "resize_calls evs = map (resize_request img) (ICO_SIZES @ map fst ICNS_SIZES)
        \<and> PngToIco pngs \<in> set evs \<and> BuildIcns es \<in> set evs"
    using run
  proof (cases rule: convert_outcomes)
    case (ico_resize err)
    then show ?thesis using pngs by simp
  next
    case (ico_encode pngs' err)
    then show ?thesis using pngs ico by simp
  next
    case (icns_resize pngs' icoBuffer' err)
    then show ?thesis using es by simp
  next
    case (icns_encode pngs' icoBuffer' es' err)
    then show ?thesis
      using pngs es by (simp add: resize_calls_map resize_calls_simps)
  next
    case (converted pngs' icoBuffer' es' icnsBuffer)
    then show ?thesis
      using pngs es by (simp add: resize_calls_map resize_calls_simps)
  qed
  then have calls: "resize_calls evs = map (resize_request img) (ICO_SIZES @ map fst ICNS_SIZES)"
    and fed_ico: "PngToIco pngs \<in> set evs" and fed_icns: "BuildIcns es \<in> set evs"
    by simp_all
  have count: "length (resize_calls evs) = 14"
    unfolding calls by (simp add: length_tables)
  have each: "\<forall>c\<in>set (resize_calls evs).
             input c = img \<and> width c = height c \<and> fit c = Contain
             \<and> background c = Rgba 0 0 0 0 \<and> format c = Png
             \<and> (\<exists>png. sharp env c = Inr png \<and> png_dims png = Some (width c, width c))"
  proof
    fix c assume "c \<in> set (resize_calls evs)"
    then obtain sz where sz: "sz \<in> set (ICO_SIZES @ map fst ICNS_SIZES)"
      and c: "c = resize_request img sz"
      unfolding calls by auto
    obtain png where png: "sharp env c = Inr png"
      using accepted sz c by blast
    have shape: "input c = img \<and> width c = height c \<and> fit c = Contain
             \<and> background c = Rgba 0 0 0 0 \<and> format c = Png"
      unfolding c by (simp add: resize_request_def)
    then have "png_dims png = Some (width c, width c)"
      using contract png unfolding resizer_contract_def by metis
    then show "input c = img \<and> width c = height c \<and> fit c = Contain
             \<and> background c = Rgba 0 0 0 0 \<and> format c = Png
             \<and> (\<exists>png. sharp env c = Inr png \<and> png_dims png = Some (width c, width c))"
      using shape png by blast
  qed
  have ico_fed: "\<exists>pngs. PngToIco pngs \<in> set evs
             \<and> map Inr pngs = map (\<lambda>sz. sharp env (resize_request img sz)) ICO_SIZES"
    using fed_ico pngs pngBuffersForIco_nonempty [OF nonempty, of env]
    by (auto simp: promise_all_Inr)
  have icns_fed: "\<exists>es. BuildIcns es \<in> set evs
             \<and> list_all2 (\<lambda>(sz, tag) e. osType e = tag
                          \<and> sharp env (resize_request img sz) = Inr (data e)) ICNS_SIZES es"
    using fed_icns icnsEntries_table [OF es] by blast
  have tables: "ICO_SIZES = [16, 24, 32, 48, 64, 128, 256]"
      "map fst ICNS_SIZES = [16, 32, 64, 128, 256, 512, 1024]"
      "sorted ICO_SIZES" "sorted (map fst ICNS_SIZES)"
    by (simp_all add: ICO_SIZES_def ICNS_SIZES_def)
  show ?thesis
    using calls count each ico_fed icns_fed tables by blast
qed

theorem convert_resize_calls_witness:
  "sample_image \<noteq> []
   \<and> resizer_contract png_env
   \<and> sharp png_env (resize_request sample_image 1024) = Inr (png_header 1024 1024)
   \<and> png_dims (png_header 1024 1024) = Some (1024, 1024)
   \<and> resize_calls (snd (snd png_run))
       = map (resize_request sample_image) (ICO_SIZES @ map fst ICNS_SIZES)
   \<and> length (resize_calls (snd (snd png_run))) = 14"
proof -
  note r = convert_resize_calls [OF png_run_triple sample_image_nonempty png_env_accepts
      resizer_contract_png_env png_env_encodes]
  have run: "sharp png_env (resize_request sample_image 1024) = Inr (png_header 1024 1024)"
    by (simp add: png_env_def sample_env_def resize_request_def)
  have dims: "png_dims (png_header 1024 1024) = Some (1024, 1024)"
    by (rule png_dims_header) simp_all
  show ?thesis
    using r [THEN conjunct1] r [THEN conjunct2, THEN conjunct1]
      sample_image_nonempty resizer_contract_png_env run dims
    by simp
qed

subsection \<open>Retrieval\<close>

text \<open>
  C6. For every id and both kinds: when the id is well formed (one or more characters
  of \<open>a-z0-9\<close>, as every issued id is) and its file is in the output directory,
  the download answers with the stored bytes; when the file is not there (the id was
  never issued, has expired, or the file was purged) the answer is the
  \<open>NotFoundError\<close>, namely the 404 for a well-formed id and the 400 for an id that
  fails the pattern.
\<close>

theorem download_get:
  assumes kind: "kind = js ''ico'' \<or> kind = js ''icns''"
  shows "(ident \<noteq> [] \<and> list_all is_az09 ident
            \<and> files s (path_join (outputDir env) (ident @ js ''.'' @ kind)) = Some bytes \<longrightarrow>
          (\<exists>mimeType disposition.
             fst (download env (ident @ js ''.'' @ kind) s) = File mimeType disposition bytes))
       \<and> (files s (path_join (outputDir env) (ident @ js ''.'' @ kind)) = None \<longrightarrow>
          NotFoundError (fst (download env (ident @ js ''.'' @ kind) s)))
       \<and> (ident \<noteq> [] \<and> list_all is_az09 ident
            \<and> files s (path_join (outputDir env) (ident @ js ''.'' @ kind)) = None \<longrightarrow>
          fst (download env (ident @ js ''.'' @ kind) s)
            = Status 404 (js ''File not found or expired''))
       \<and> (\<not> (ident \<noteq> [] \<and> list_all is_az09 ident) \<longrightarrow>
          fst (download env (ident @ js ''.'' @ kind) s) = Status 400 (js ''Invalid filename''))"
proof -
  note v = valid_filename_kind [OF kind, of ident]
  have present: "\<exists>mimeType disposition.
             fst (download env (ident @ js ''.'' @ kind) s) = File mimeType disposition bytes"
    if "ident \<noteq> [] \<and> list_all is_az09 ident"
      "files s (path_join (outputDir env) (ident @ js ''.'' @ kind)) = Some bytes"
    using that v by (simp add: download_def Let_def)
  have absent: "fst (download env (ident @ js ''.'' @ kind) s)
            = Status 404 (js ''File not found or expired'')"
    if "ident \<noteq> [] \<and> list_all is_az09 ident"
      "files s (path_join (outputDir env) (ident @ js ''.'' @ kind)) = None"
    using that v by (simp add: download_absent)
  have malformed: "fst (download env (ident @ js ''.'' @ kind) s) = Status 400 (js ''Invalid filename'')"
    if "\<not> (ident \<noteq> [] \<and> list_all is_az09 ident)"
    using that v by (simp add: download_invalid)
  have refused: "NotFoundError (fst (download env (ident @ js ''.'' @ kind) s))"
    if "files s (path_join (outputDir env) (ident @ js ''.'' @ kind)) = None"
    using that absent malformed unfolding NotFoundError_def by blast
  show ?thesis
    using present absent malformed refused by blast
qed

theorem download_get_witness:
  "files (fst (snd sample_run)) (path_join (outputDir sample_env) (js ''rsi'' @ js ''.'' @ js ''ico''))
     = Some [16, 24, 32, 48, 64, 128, 0]
   \<and> (\<exists>mimeType disposition.
         fst (download sample_env (js ''rsi'' @ js ''.'' @ js ''ico'') (fst (snd sample_run)))
           = File mimeType disposition [16, 24, 32, 48, 64, 128, 0])
   \<and> files empty_server (path_join (outputDir sample_env) (js ''rsi'' @ js ''.'' @ js ''ico'')) = None
   \<and> fst (download sample_env (js ''rsi'' @ js ''.'' @ js ''ico'') empty_server)
       = Status 404 (js ''File not found or expired'')
   \<and> NotFoundError (fst (download sample_env (js ''rsi'' @ js ''.'' @ js ''ico'') empty_server))
   \<and> \<not> list_all is_az09 (js ''ABC'')
   \<and> fst (download sample_env (js ''ABC'' @ js ''.'' @ js ''ico'') empty_server)
       = Status 400 (js ''Invalid filename'')"
proof -
  have wf: "js ''rsi'' \<noteq> [] \<and> list_all is_az09 (js ''rsi'')"
    by (simp add: js_def is_az09_def)
  have bad: "\<not> list_all is_az09 (js ''ABC'')"
    by (simp add: js_def is_az09_def)
  have there: "files (fst (snd sample_run))
                 (path_join (outputDir sample_env) (js ''rsi'' @ js ''.'' @ js ''ico''))
               = Some [16, 24, 32, 48, 64, 128, 0]"
    unfolding sample_dir by (rule sample_files(1))
  have gone: "files empty_server (path_join (outputDir sample_env) (js ''rsi'' @ js ''.'' @ js ''ico'')) = None"
    by (simp add: empty_server_def)
  note a = download_get [of "js ''ico''" "js ''rsi''" "fst (snd sample_run)" sample_env
               "[16, 24, 32, 48, 64, 128, 0]"]
  note b = download_get [of "js ''ico''" "js ''rsi''" empty_server sample_env]
  note c = download_get [of "js ''ico''" "js ''ABC''" empty_server sample_env]
  have a1: "\<exists>mimeType disposition.
         fst (download sample_env (js ''rsi'' @ js ''.'' @ js ''ico'') (fst (snd sample_run)))
           = File mimeType disposition [16, 24, 32, 48, 64, 128, 0]"
    using a wf there by blast
  have b1: "fst (download sample_env (js ''rsi'' @ js ''.'' @ js ''ico'') empty_server)
       = Status 404 (js ''File not found or expired'')"
    and b2: "NotFoundError (fst (download sample_env (js ''rsi'' @ js ''.'' @ js ''ico'') empty_server))"
    using b wf gone by blast+
  have c1: "fst (download sample_env (js ''ABC'' @ js ''.'' @ js ''ico'') empty_server)
       = Status 400 (js ''Invalid filename'')"
    using c bad by blast
  show ?thesis
    using there a1 gone b1 b2 bad c1 by blast
qed

text \<open>
  C8. A file name that does not match \<open>^[a-z0-9]+\.(ico|icns)$\<close> is answered with
  400 and the handler has made no call to the file system (its list of events is
  empty); for a name that matches, the lookup is among the events.
\<close>

theorem download_rejects_before_lookup:
  "(\<not> matches_pattern filename \<longrightarrow>
      download env filename s = (Status 400 (js ''Invalid filename''), []))
   \<and> (matches_pattern filename \<longrightarrow>
        ExistsSync (path_join (outputDir env) filename) \<in> set (snd (download env filename s)))"
proof (cases "matches_pattern filename")
  case False
  then have "\<not> valid_filename filename"
    by (simp add: valid_filename_iff)
  then have "download env filename s = (Status 400 (js ''Invalid filename''), [])"
    by (rule download_invalid)
  then show ?thesis
    using False by simp
next
  case True
  then have valid: "valid_filename filename"
    by (simp add: valid_filename_iff)
  have "ExistsSync (path_join (outputDir env) filename) \<in> set (snd (download env filename s))"
  proof (cases "files s (path_join (outputDir env) filename)")
    case None
    then show ?thesis
      using valid by (simp add: download_absent)
  next
    case (Some bytes)
    then show ?thesis
      using valid by (simp add: download_def Let_def)
  qed
  then show ?thesis
    using True by simp
qed

theorem download_rejects_before_lookup_witness:
  "\<not> matches_pattern (js ''../etc/passwd.ico'')
   \<and> download sample_env (js ''../etc/passwd.ico'') (fst (snd sample_run))
       = (Status 400 (js ''Invalid filename''), [])
   \<and> \<not> matches_pattern (js ''ABC123.exe'')
   \<and> download sample_env (js ''ABC123.exe'') (fst (snd sample_run))
       = (Status 400 (js ''Invalid filename''), [])
   \<and> matches_pattern (js ''rsi.ico'')
   \<and> ExistsSync (path_join (outputDir sample_env) (js ''rsi.ico''))
        \<in> set (snd (download sample_env (js ''rsi.ico'') (fst (snd sample_run))))"
proof -
  have bad1: "\<not> matches_pattern (js ''../etc/passwd.ico'')"
    unfolding valid_filename_iff [symmetric]
    by (simp add: valid_filename_def js_def is_az09_def)
  have bad2: "\<not> matches_pattern (js ''ABC123.exe'')"
    unfolding valid_filename_iff [symmetric]
    by (simp add: valid_filename_def js_def is_az09_def)
  have good: "matches_pattern (js ''rsi.ico'')"
    unfolding valid_filename_iff [symmetric]
    by (simp add: valid_filename_def js_def is_az09_def)
  show ?thesis
    using bad1 bad2 good
      download_rejects_before_lookup [of "js ''../etc/passwd.ico''" sample_env "fst (snd sample_run)"]
      download_rejects_before_lookup [of "js ''ABC123.exe''" sample_env "fst (snd sample_run)"]
      download_rejects_before_lookup [of "js ''rsi.ico''" sample_env "fst (snd sample_run)"]
    by blast
qed



subsection \<open>Expiry\<close>

text \<open>
  On the path that succeeds: a conversion that answers with the two URLs registers,
  with the files, a timer due \<open>5 * 60 * 1000\<close> ms later that holds the two paths;
  once the event loop has reached that time and run the timers due, the download of
  either file answers 404. The timer's callback never leaves its \<open>try\<close> block with
  an error, running it twice is running it once, and on files that are not there it
  changes nothing.
\<close>

theorem retention:
  assumes run: "convert env now rnd (Some img) s = (Json u1 u2, s', evs)"
    and now: "0 \<le> now" and rnd: "list_all (\<lambda>d. d < 36) rnd"
  shows "\<lparr>due = clock s + 300000, ico = icoPath env now rnd, icns = icnsPath env now rnd\<rparr>
           \<in> set (timers s')
       \<and> SetTimeout (5 * 60 * 1000) (icoPath env now rnd) (icnsPath env now rnd) \<in> set evs
       \<and> (\<forall>t. clock s + 300000 \<le> t \<longrightarrow>
             fst (download env (icoFilename now rnd) (advance t s'))
               = Status 404 (js ''File not found or expired'')
           \<and> fst (download env (icnsFilename now rnd) (advance t s'))
               = Status 404 (js ''File not found or expired''))
       \<and> (\<forall>a b fs. fst (cleanup_try a b fs) = None
                   \<and> cleanup a b (cleanup a b fs) = cleanup a b fs)
       \<and> (\<forall>a b fs. fs a = None \<and> fs b = None \<longrightarrow> cleanup a b fs = fs)"
  using run
proof (cases rule: convert_outcomes)
  case (converted pngs icoBuffer es icnsBuffer)
  let ?tm = "\<lparr>due = clock s + 300000, ico = icoPath env now rnd, icns = icnsPath env now rnd\<rparr>"
  have timer: "?tm \<in> set (timers s')"
    unfolding converted(6) by (simp add: timers_setTimeout)
  have event: "SetTimeout (5 * 60 * 1000) (icoPath env now rnd) (icnsPath env now rnd) \<in> set evs"
    unfolding converted(7) by simp
  have valid: "valid_filename (icoFilename now rnd)" "valid_filename (icnsFilename now rnd)"
    using valid_filename_id is_az09_new_id [OF now rnd] by blast+
  have expired: "fst (download env (icoFilename now rnd) (advance t s'))
               = Status 404 (js ''File not found or expired'')
           \<and> fst (download env (icnsFilename now rnd) (advance t s'))
               = Status 404 (js ''File not found or expired'')"
    if t: "clock s + 300000 \<le> t" for t
  proof -
    have "\<exists>tm\<in>set (timers s'). due tm \<le> t
            \<and> (icoPath env now rnd = ico tm \<or> icoPath env now rnd = icns tm)"
         "\<exists>tm\<in>set (timers s'). due tm \<le> t
            \<and> (icnsPath env now rnd = ico tm \<or> icnsPath env now rnd = icns tm)"
      using timer t by (auto intro!: bexI [of _ ?tm])
    then have "files (advance t s') (icoPath env now rnd) = None"
        "files (advance t s') (icnsPath env now rnd) = None"
      by (simp_all only: files_advance if_True)
    then show ?thesis
      using valid by (simp add: download_absent)
  qed
  have p3: "\<forall>t. clock s + 300000 \<le> t \<longrightarrow>
             fst (download env (icoFilename now rnd) (advance t s'))
               = Status 404 (js ''File not found or expired'')
           \<and> fst (download env (icnsFilename now rnd) (advance t s'))
               = Status 404 (js ''File not found or expired'')"
    by (intro allI impI) (rule expired)
  have p4: "\<forall>a b fs. fst (cleanup_try a b fs) = None
                   \<and> cleanup a b (cleanup a b fs) = cleanup a b fs"
    by (simp add: cleanup_try_eq cleanup_eq)
  have p5: "\<forall>a b fs. fs a = None \<and> fs b = None \<longrightarrow> cleanup a b fs = fs"
    by (auto simp: cleanup_eq)
  show ?thesis
    by (rule conjI [OF timer conjI [OF event conjI [OF p3 conjI [OF p4 p5]]]])
qed (simp_all)

theorem retention_witness:
  "0 \<le> (1000::int) \<and> list_all (\<lambda>d. d < 36) [18::nat]
   \<and> fst sample_run = Json (js ''/api/download/rsi.ico'') (js ''/api/download/rsi.icns'')
   \<and> \<lparr>due = 300000, ico = js ''/srv/output/rsi.ico'', icns = js ''/srv/output/rsi.icns''\<rparr>
        \<in> set (timers (fst (snd sample_run)))
   \<and> fst (download sample_env (js ''rsi.ico'') (advance 300000 (fst (snd sample_run))))
       = Status 404 (js ''File not found or expired'')
   \<and> fst (download sample_env (js ''rsi.icns'') (advance 300000 (fst (snd sample_run))))
       = Status 404 (js ''File not found or expired'')"
proof -
  note r = retention [OF sample_run_Json sample_inputs]
  have clock0: "clock empty_server + 300000 = 300000"
    by (simp add: empty_server_def)
  have timer: "\<lparr>due = 300000, ico = js ''/srv/output/rsi.ico'', icns = js ''/srv/output/rsi.icns''\<rparr>
        \<in> set (timers (fst (snd sample_run)))"
    using r [THEN conjunct1] unfolding clock0 sample_names sample_dir_names .
  have later: "\<forall>t. 300000 \<le> t \<longrightarrow>
          fst (download sample_env (js ''rsi.ico'') (advance t (fst (snd sample_run))))
            = Status 404 (js ''File not found or expired'')
        \<and> fst (download sample_env (js ''rsi.icns'') (advance t (fst (snd sample_run))))
            = Status 404 (js ''File not found or expired'')"
    using r [THEN conjunct2, THEN conjunct2, THEN conjunct1]
    unfolding clock0 sample_names .
  have gone: "fst (download sample_env (js ''rsi.ico'') (advance 300000 (fst (snd sample_run))))
            = Status 404 (js ''File not found or expired'')
        \<and> fst (download sample_env (js ''rsi.icns'') (advance 300000 (fst (snd sample_run))))
            = Status 404 (js ''File not found or expired'')"
    using later by simp
  show ?thesis
    using sample_inputs sample_run_eq(1) timer gone by simp
qed

text \<open>
  On every path where the ICO half has succeeded and the request fails, the \<open>.ico\<close>
  file is stored and the list of timers is what it was.
\<close>

lemma failed_request_schedules_nothing:
  assumes run: "convert env now rnd (Some img) s = (ServerError err, s', evs)"
    and "pngBuffersForIco env img = Inr pngs" "pngToIco env pngs = Inr icoBuffer"
  shows "files s' (icoPath env now rnd) = Some icoBuffer \<and> timers s' = timers s"
  using run
proof (cases rule: convert_outcomes)
  case (icns_resize pngs' icoBuffer' err')
  then show ?thesis using assms(2,3) by simp
next
  case (icns_encode pngs' icoBuffer' es err')
  then show ?thesis using assms(2,3) by simp
qed (use assms(2,3) in simp_all)

text \<open>
  C7, as the code has it. The handler stores the \<open>.ico\<close> file before the ICNS half and
  calls \<open>setTimeout\<close> only after it. When the ICNS half fails (here the 512 pixel
  resize), the request answers 500, the \<open>.ico\<close> file has been written, no timer is
  registered, and the download of that file answers with its bytes at every later
  time: the stored file is never deleted.
\<close>

theorem stored_file_never_deleted:
  "fst flaky_run = ServerError (Rejected (js ''out of memory''))
   \<and> WriteFileSync (js ''/srv/output/rsi.ico'') [16, 24, 32, 48, 64, 128, 0]
        \<in> set (snd (snd flaky_run))
   \<and> timers (fst (snd flaky_run)) = []
   \<and> (\<forall>t. fst (download flaky_env (js ''rsi.ico'') (advance t (fst (snd flaky_run))))
            = File (js ''image/x-icon'') (js ''attachment; filename='' @ [34] @ js ''rsi.ico'' @ [34])
                [16, 24, 32, 48, 64, 128, 0])"
proof -
  have run: "convert flaky_env 1000 [18] (Some sample_image) empty_server
              = (fst flaky_run, fst (snd flaky_run), snd (snd flaky_run))"
    unfolding flaky_run_def by (rule run_triple)
  have written: "WriteFileSync (js ''/srv/output/rsi.ico'') [16, 24, 32, 48, 64, 128, 0]
        \<in> set (snd (snd flaky_run))"
    using run
  proof (cases rule: convert_outcomes)
    case (icns_resize pngs icoBuffer err)
    then show ?thesis
      using pngBuffersForIco_sample(2) pngToIco_sample(2) by (simp add: sample_paths)
  qed (auto simp: pngBuffersForIco_sample pngToIco_sample icnsEntries_flaky)
  have none: "timers (fst (snd flaky_run)) = []"
    by (rule partial_result_not_scheduled)
  have wf: "list_all is_az09 (js ''rsi'')" "js ''rsi'' \<noteq> []"
    by (simp_all add: js_def is_az09_def)
  have served: "fst (download flaky_env (js ''rsi.ico'') (advance t (fst (snd flaky_run))))
            = File (js ''image/x-icon'') (js ''attachment; filename='' @ [34] @ js ''rsi.ico'' @ [34])
                [16, 24, 32, 48, 64, 128, 0]" for t
  proof -
    have "files (advance t (fst (snd flaky_run))) (js ''/srv/output/rsi.ico'')
            = files (fst (snd flaky_run)) (js ''/srv/output/rsi.ico'')"
      by (rule files_advance_fresh) (simp add: none)
    also have "\<dots> = Some [16, 24, 32, 48, 64, 128, 0]"
      unfolding flaky_run_eq by simp
    finally have "files (advance t (fst (snd flaky_run)))
          (path_join (outputDir flaky_env) (js ''rsi'' @ js ''.ico''))
        = Some [16, 24, 32, 48, 64, 128, 0]"
      by (simp add: path_join_def flaky_env_def sample_env_def js_def)
    from download_ico [OF wf this] show ?thesis
      by (simp add: js_def)
  qed
  show ?thesis
    using flaky_run_eq(1) written none served by simp
qed

subsection \<open>The identifier\<close>

lemma repeat_state:
  "files (advance 50 (fst (snd sample_run))) = files (fst (snd sample_run))"
  "timers (advance 50 (fst (snd sample_run)))
     = [\<lparr>due = 300000, ico = js ''/srv/output/rsi.ico'', icns = js ''/srv/output/rsi.icns''\<rparr>]"
  "clock (advance 50 (fst (snd sample_run))) = 50"
  unfolding sample_run_eq by (simp_all add: advance_def setTimeout_def empty_server_def)

text \<open>
  C10, as the code has it. A second request that reads the same \<open>Date.now()\<close> and
  draws the same random digits gets the same identifier and writes the same two files.
  Its answer names them and its own timer is due at 300050, but the timer of the first
  request deletes them at 300000: from then on, before its own expiry, both of its URLs
  answer 404.
\<close>

theorem reused_id_expires_early:
  "fst sample_run = Json (js ''/api/download/rsi.ico'') (js ''/api/download/rsi.icns'')
   \<and> fst repeat_run = Json (js ''/api/download/rsi.ico'') (js ''/api/download/rsi.icns'')
   \<and> \<lparr>due = 300050, ico = js ''/srv/output/rsi.ico'', icns = js ''/srv/output/rsi.icns''\<rparr>
        \<in> set (timers (fst (snd repeat_run)))
   \<and> fst (download sample_env (js ''rsi.ico'') (advance 300000 (fst (snd repeat_run))))
       = Status 404 (js ''File not found or expired'')
   \<and> fst (download sample_env (js ''rsi.icns'') (advance 300000 (fst (snd repeat_run))))
       = Status 404 (js ''File not found or expired'')"
proof -
  let ?first = "\<lparr>due = 300000, ico = js ''/srv/output/rsi.ico'', icns = js ''/srv/output/rsi.icns''\<rparr>"
  have run: "convert sample_env 1000 [18] (Some sample_image) (advance 50 (fst (snd sample_run)))
              = (fst repeat_run, fst (snd repeat_run), snd (snd repeat_run))"
    unfolding repeat_run_def by (rule run_triple)
  have both: "fst repeat_run = Json (js ''/api/download/rsi.ico'') (js ''/api/download/rsi.icns'')
      \<and> timers (fst (snd repeat_run))
        = [?first, \<lparr>due = 300050, ico = js ''/srv/output/rsi.ico'', icns = js ''/srv/output/rsi.icns''\<rparr>]"
    using run
  proof (cases rule: convert_outcomes)
    case (converted pngs icoBuffer es icnsBuffer)
    have "fst repeat_run = Json (js ''/api/download/rsi.ico'') (js ''/api/download/rsi.icns'')"
      using converted(5) by (simp add: new_id_sample js_def)
    moreover have "timers (fst (snd repeat_run))
        = [?first, \<lparr>due = 300050, ico = js ''/srv/output/rsi.ico'', icns = js ''/srv/output/rsi.icns''\<rparr>]"
      unfolding converted(6) timers_setTimeout sample_paths
      by (simp add: repeat_state)
    ultimately show ?thesis by simp
  qed (auto simp: pngBuffersForIco_sample pngToIco_sample icnsEntries_sample buildIcns_sample_table)
  then have answer: "fst repeat_run = Json (js ''/api/download/rsi.ico'') (js ''/api/download/rsi.icns'')"
    and pending: "timers (fst (snd repeat_run))
        = [?first, \<lparr>due = 300050, ico = js ''/srv/output/rsi.ico'', icns = js ''/srv/output/rsi.icns''\<rparr>]"
    by simp_all
  have valid: "valid_filename (js ''rsi.ico'')" "valid_filename (js ''rsi.icns'')"
    by (simp_all add: valid_filename_def js_def is_az09_def)
  have "\<exists>tm\<in>set (timers (fst (snd repeat_run))). due tm \<le> 300000
          \<and> (js ''/srv/output/rsi.ico'' = ico tm \<or> js ''/srv/output/rsi.ico'' = icns tm)"
       "\<exists>tm\<in>set (timers (fst (snd repeat_run))). due tm \<le> 300000
          \<and> (js ''/srv/output/rsi.icns'' = ico tm \<or> js ''/srv/output/rsi.icns'' = icns tm)"
    unfolding pending by simp_all
  then have gone: "files (advance 300000 (fst (snd repeat_run))) (js ''/srv/output/rsi.ico'') = None"
      "files (advance 300000 (fst (snd repeat_run))) (js ''/srv/output/rsi.icns'') = None"
    by (simp_all only: files_advance if_True)
  have early: "fst (download sample_env (js ''rsi.ico'') (advance 300000 (fst (snd repeat_run))))
       = Status 404 (js ''File not found or expired'')"
      "fst (download sample_env (js ''rsi.icns'') (advance 300000 (fst (snd repeat_run))))
       = Status 404 (js ''File not found or expired'')"
    using gone valid by (simp_all add: download_absent sample_dir_names)
  show ?thesis
    using sample_run_eq(1) answer early unfolding pending by simp
qed

text \<open>
  C10, amended. For a time stamp that is not negative, the identifier is the time
  stamp in base 36 followed by the first six (or fewer) base-36 digits of the random
  number; it is not empty and consists of characters \<open>a-z0-9\<close> only, so \<open>id.ico\<close>
  and \<open>id.icns\<close> match the pattern of the download route. Two requests whose time
  stamps have equally many digits get the same identifier only when the time stamps
  and the first six random digits agree. After a conversion that succeeds, both URLs
  of the answer are served with a file at any time before the timer is due, provided
  no pending timer of an earlier request names the same two paths.
\<close>

theorem new_id_valid:
  assumes now: "0 \<le> now" and rnd: "list_all (\<lambda>d. d < 36) rnd"
  shows "list_all is_az09 (new_id now rnd) \<and> new_id now rnd \<noteq> []
       \<and> new_id now rnd = toString36 now @ map digit36 (take 6 rnd)
       \<and> matches_pattern (icoFilename now rnd) \<and> matches_pattern (icnsFilename now rnd)
       \<and> valid_filename (icoFilename now rnd) \<and> valid_filename (icnsFilename now rnd)
       \<and> (0 \<le> now' \<and> list_all (\<lambda>d. d < 36) rnd'
            \<and> length (toString36 now') = length (toString36 now)
            \<and> new_id now' rnd' = new_id now rnd
          \<longrightarrow> now' = now \<and> take 6 rnd' = take 6 rnd)
       \<and> (convert env now rnd (Some img) s = (Json u1 u2, s', evs)
            \<and> t < clock s + 300000
            \<and> (\<forall>tm\<in>set (timers s).
                  ico tm \<noteq> icoPath env now rnd \<and> icns tm \<noteq> icoPath env now rnd
                  \<and> ico tm \<noteq> icnsPath env now rnd \<and> icns tm \<noteq> icnsPath env now rnd)
          \<longrightarrow> u1 = js ''/api/download/'' @ icoFilename now rnd
              \<and> u2 = js ''/api/download/'' @ icnsFilename now rnd
              \<and> (\<exists>mimeType disposition bytes.
                    fst (download env (icoFilename now rnd) (advance t s'))
                      = File mimeType disposition bytes)
              \<and> (\<exists>mimeType disposition bytes.
                    fst (download env (icnsFilename now rnd) (advance t s'))
                      = File mimeType disposition bytes))"
proof -
  note wf = is_az09_new_id [OF now rnd]
  note valid = valid_filename_id [OF wf]
  have shape: "new_id now rnd = toString36 now @ map digit36 (take 6 rnd)"
    using new_id_shape [OF now] now by (simp add: toString36_def)
  have unique: "now' = now \<and> take 6 rnd' = take 6 rnd"
    if "0 \<le> now' \<and> list_all (\<lambda>d. d < 36) rnd'
            \<and> length (toString36 now') = length (toString36 now)
            \<and> new_id now' rnd' = new_id now rnd"
    using that new_id_unique [OF now _ rnd] by blast
  have pattern: "matches_pattern (icoFilename now rnd)" "matches_pattern (icnsFilename now rnd)"
    using valid by (simp_all add: valid_filename_iff)
  have retrievable:
    "u1 = js ''/api/download/'' @ icoFilename now rnd
     \<and> u2 = js ''/api/download/'' @ icnsFilename now rnd
     \<and> (\<exists>mimeType disposition bytes.
           fst (download env (icoFilename now rnd) (advance t s')) = File mimeType disposition bytes)
     \<and> (\<exists>mimeType disposition bytes.
           fst (download env (icnsFilename now rnd) (advance t s')) = File mimeType disposition bytes)"
    if run: "convert env now rnd (Some img) s = (Json u1 u2, s', evs)"
      and t: "t < clock s + 300000"
      and fresh: "\<forall>tm\<in>set (timers s).
                  ico tm \<noteq> icoPath env now rnd \<and> icns tm \<noteq> icoPath env now rnd
                  \<and> ico tm \<noteq> icnsPath env now rnd \<and> icns tm \<noteq> icnsPath env now rnd"
    using run
  proof (cases rule: convert_outcomes)
    case (converted pngs icoBuffer es icnsBuffer)
    have stored: "files s' (icoPath env now rnd) = Some icoBuffer"
        "files s' (icnsPath env now rnd) = Some icnsBuffer"
      unfolding converted(6) files_setTimeout
      using icoPath_neq_icnsPath [of env now rnd] by simp_all
    have pending: "\<forall>tm\<in>set (timers s'). due tm \<le> t \<longrightarrow>
            icoPath env now rnd \<noteq> ico tm \<and> icoPath env now rnd \<noteq> icns tm
          \<and> icnsPath env now rnd \<noteq> ico tm \<and> icnsPath env now rnd \<noteq> icns tm"
      unfolding converted(6) timers_setTimeout using fresh t by auto
    have kept: "files (advance t s') (icoPath env now rnd) = Some icoBuffer"
        "files (advance t s') (icnsPath env now rnd) = Some icnsBuffer"
      using pending stored by (simp_all add: files_advance_fresh)
    have "fst (download env (icoFilename now rnd) (advance t s'))
             = File (js ''image/x-icon'')
                 (js ''attachment; filename='' @ [34] @ icoFilename now rnd @ [34]) icoBuffer"
      by (rule download_ico [OF wf kept(1)])
    moreover have "fst (download env (icnsFilename now rnd) (advance t s'))
             = File (js ''image/icns'')
                 (js ''attachment; filename='' @ [34] @ icnsFilename now rnd @ [34]) icnsBuffer"
      by (rule download_icns [OF wf kept(2)])
    ultimately show ?thesis
      using converted(5) by simp
  qed (simp_all)
  show ?thesis
    using wf valid shape pattern unique retrievable by blast
qed

theorem new_id_valid_witness:
  "0 \<le> (1000::int) \<and> list_all (\<lambda>d. d < 36) [18::nat]
   \<and> new_id 1000 [18] = js ''rsi''
   \<and> list_all is_az09 (js ''rsi'')
   \<and> valid_filename (js ''rsi.ico'') \<and> valid_filename (js ''rsi.icns'')
   \<and> list_all (\<lambda>d. d < 36) [18, 1, 2, 3, 4, 5, 6::nat]
   \<and> list_all (\<lambda>d. d < 36) [18, 1, 2, 3, 4, 5, 7::nat]
   \<and> new_id 1000 [18, 1, 2, 3, 4, 5, 7] = new_id 1000 [18, 1, 2, 3, 4, 5, 6]
   \<and> take 6 [18, 1, 2, 3, 4, 5, 7::nat] = take 6 [18, 1, 2, 3, 4, 5, 6]
   \<and> fst sample_run = Json (js ''/api/download/rsi.ico'') (js ''/api/download/rsi.icns'')
   \<and> (299999::nat) < clock empty_server + 300000
   \<and> timers empty_server = []
   \<and> (\<exists>mimeType disposition bytes.
         fst (download sample_env (js ''rsi.ico'') (advance 299999 (fst (snd sample_run))))
           = File mimeType disposition bytes)
   \<and> (\<exists>mimeType disposition bytes.
         fst (download sample_env (js ''rsi.icns'') (advance 299999 (fst (snd sample_run))))
           = File mimeType disposition bytes)"
proof -
  note v = new_id_valid [OF sample_inputs, of 1000 "[18]" sample_env sample_image empty_server
      "js ''/api/download/rsi.ico''" "js ''/api/download/rsi.icns''"
      "fst (snd sample_run)" "snd (snd sample_run)" 299999]
  have digits: "list_all (\<lambda>d. d < 36) [18, 1, 2, 3, 4, 5, 6::nat]"
      "list_all (\<lambda>d. d < 36) [18, 1, 2, 3, 4, 5, 7::nat]"
    by simp_all
  have same: "new_id 1000 [18, 1, 2, 3, 4, 5, 7] = new_id 1000 [18, 1, 2, 3, 4, 5, 6]"
    by (simp add: new_id_shape)
  note u = new_id_valid [OF sample_inputs(1) digits(1), of 1000 "[18, 1, 2, 3, 4, 5, 7]"]
  have prefix: "take 6 [18, 1, 2, 3, 4, 5, 7::nat] = take 6 [18, 1, 2, 3, 4, 5, 6]"
    using u [THEN conjunct2, THEN conjunct2, THEN conjunct2, THEN conjunct2, THEN conjunct2,
        THEN conjunct2, THEN conjunct2, THEN conjunct1] digits(2) same
    by simp
  have t: "(299999::nat) < clock empty_server + 300000" and none: "timers empty_server = []"
    by (simp_all add: empty_server_def)
  have fresh: "\<forall>tm\<in>set (timers empty_server).
      ico tm \<noteq> icoPath sample_env 1000 [18] \<and> icns tm \<noteq> icoPath sample_env 1000 [18]
      \<and> ico tm \<noteq> icnsPath sample_env 1000 [18] \<and> icns tm \<noteq> icnsPath sample_env 1000 [18]"
    unfolding none by simp
  have chars: "list_all is_az09 (new_id 1000 [18])"
    using v by (rule conjunct1)
  have names: "valid_filename (icoFilename 1000 [18]) \<and> valid_filename (icnsFilename 1000 [18])"
    using v by blast
  have got: "(\<exists>mimeType disposition bytes.
         fst (download sample_env (icoFilename 1000 [18]) (advance 299999 (fst (snd sample_run))))
           = File mimeType disposition bytes)
   \<and> (\<exists>mimeType disposition bytes.
         fst (download sample_env (icnsFilename 1000 [18]) (advance 299999 (fst (snd sample_run))))
           = File mimeType disposition bytes)"
    using v sample_run_Json t fresh by blast
  show ?thesis
    using chars [unfolded new_id_sample] names [unfolded sample_names] got [unfolded sample_names]
      sample_inputs new_id_sample sample_run_eq(1) t none digits same prefix
    by simp
qed

end
